theory Spec2Isabelle
  imports Complex_Main "HOL-Library.Word"
begin

section \<open>Data model\<close>

text \<open>
  The script \<^verbatim>\<open>scripts/run_evaluation.py\<close> works on numpy arrays. An array is its
  shape together with its elements in row-major (C) order, which is how numpy stores a
  freshly created or loaded array. An array is well formed when it holds as many elements
  as its shape announces.
\<close>

record 'a ndarray =
  shape :: "nat list"
  data :: "'a list"

definition wf_array :: "'a ndarray \<Rightarrow> bool" where
  "wf_array a = (length (data a) = prod_list (shape a))"

text \<open>
  The exceptions the modelled code can meet. \<open>ZeroDivisionError\<close> is the one the
  score functions catch. \<open>ValueError\<close> is what \<^verbatim>\<open>np.min\<close> raises on an array without
  elements, \<open>IndexError\<close> what \<^verbatim>\<open>seg.shape[2]\<close> raises on an array of fewer than
  three axes. \<open>ShapeMismatch\<close> stands for two operands of different shapes: numpy then
  either broadcasts them or raises \<^verbatim>\<open>ValueError\<close>; the script only ever passes volumes
  of one sample, which have the same shape, and the model does not follow numpy's
  broadcasting rules beyond that.
\<close>

datatype py_error = ZeroDivisionError | ValueError | IndexError | ShapeMismatch

section \<open>Double precision numbers\<close>

text \<open>
  A \<^verbatim>\<open>float64\<close> is a finite number, an infinity or NaN. Every arithmetic operation of
  numpy on finite numbers returns the exact result rounded as IEEE 754 says; \<open>ieee\<close>
  below is that rounding, built in three steps. \<open>round53\<close> rounds to the nearest number
  with 53 significant bits, ties going to the even significand: the result of an
  operation whose exact value is a normal number, from \<open>2^-1022\<close> up to \<open>2^1024\<close>.
  \<open>round64\<close> adds the subnormal numbers: below \<open>2^-1022\<close> the doubles are the multiples
  of \<open>2^-1074\<close>. \<open>ieee\<close> adds the overflow: a rounded value of \<open>2^1024\<close> or more is an
  infinity. The sign of zero is not modelled.
\<close>

datatype np_float = Finite real | PosInf | NegInf | NaN

text \<open>\<open>rint\<close>: the nearest integer, a tie going to the even one (what \<^verbatim>\<open>np.around\<close> and
  \<^verbatim>\<open>np.round\<close> do for \<^verbatim>\<open>decimals=0\<close>).\<close>

definition rint :: "real \<Rightarrow> int" where
  "rint x = (let f = \<lfloor>x\<rfloor>; d = x - of_int f in
     if d < 1 / 2 then f else if 1 / 2 < d then f + 1 else if even f then f else f + 1)"

text \<open>\<open>binade x\<close>: the largest power of two that is at most \<open>x\<close>, for positive \<open>x\<close>.\<close>

function binade :: "real \<Rightarrow> real" where
  "binade x = (if x \<le> 0 then 1 else if 2 \<le> x then 2 * binade (x / 2)
               else if x < 1 then binade (2 * x) / 2 else 1)"
  by pat_completeness auto
termination
proof (relation "measure (\<lambda>x. if 1 \<le> x then nat \<lfloor>x\<rfloor> else nat \<lfloor>1 / x\<rfloor> + 1)")
  show "wf (measure (\<lambda>x::real. if 1 \<le> x then nat \<lfloor>x\<rfloor> else nat \<lfloor>1 / x\<rfloor> + 1))"
    by simp
next
  fix x :: real
  assume a: "\<not> x \<le> 0" "2 \<le> x"
  have "\<lfloor>x / 2\<rfloor> < \<lfloor>x\<rfloor>" using a by linarith
  moreover have "0 < \<lfloor>x\<rfloor>" using a by linarith
  ultimately show
    "(x / 2, x) \<in> measure (\<lambda>x. if 1 \<le> x then nat \<lfloor>x\<rfloor> else nat \<lfloor>1 / x\<rfloor> + 1)"
    using a by simp
next
  fix x :: real
  assume a: "\<not> x \<le> 0" "\<not> 2 \<le> x" "x < 1"
  show "(2 * x, x) \<in> measure (\<lambda>x. if 1 \<le> x then nat \<lfloor>x\<rfloor> else nat \<lfloor>1 / x\<rfloor> + 1)"
  proof (cases "1 \<le> 2 * x")
    case True
    then have "\<lfloor>2 * x\<rfloor> = 1" using a by linarith
    moreover have "1 \<le> 1 / x" using a by simp
    then have "1 \<le> \<lfloor>1 / x\<rfloor>" by linarith
    ultimately show ?thesis using a True by simp
  next
    case False
    then have "2 < 1 / x" using a by (simp add: field_simps)
    moreover have "1 / (2 * x) = (1 / x) / 2" by simp
    ultimately have "\<lfloor>1 / (2 * x)\<rfloor> < \<lfloor>1 / x\<rfloor>" "0 < \<lfloor>1 / x\<rfloor>" by linarith+
    then show ?thesis using a False by simp
  qed
qed

declare binade.simps [simp del]

definition round53 :: "real \<Rightarrow> real" where
  "round53 x = (if x = 0 then 0 else
     let q = binade \<bar>x\<bar> / 2 ^ 52 in of_int (rint (x / q)) * q)"

definition round64 :: "real \<Rightarrow> real" where
  "round64 x =
     (if \<bar>x\<bar> < 1 / 2 ^ 1022 then of_int (rint (x * 2 ^ 1074)) / 2 ^ 1074 else round53 x)"

definition ieee :: "real \<Rightarrow> np_float" where
  "ieee x =
     (if \<bar>round64 x\<bar> < 2 ^ 1024 then Finite (round64 x)
      else if 0 < x then PosInf else NegInf)"

text \<open>
  True division of two \<^verbatim>\<open>int64\<close> scalars, as in \<^verbatim>\<open>a.sum() / b.sum()\<close>: numpy converts
  both to \<^verbatim>\<open>float64\<close> and divides them as IEEE 754 says. A zero divisor raises nothing:
  the quotient is NaN for \<open>0 / 0\<close> and an infinity otherwise (numpy prints a
  \<^verbatim>\<open>RuntimeWarning\<close> and goes on). An \<^verbatim>\<open>int64\<close> is below \<open>2^63\<close> in size, so the
  converted operands and a quotient that is not zero are normal numbers, where the
  rounding is \<open>round53\<close>.
\<close>

definition np_true_divide :: "int \<Rightarrow> int \<Rightarrow> np_float" where
  "np_true_divide a b =
     (if b = 0 then (if a = 0 then NaN else if 0 < a then PosInf else NegInf)
      else Finite (round53 (round53 (of_int a) / round53 (of_int b))))"

section \<open>Score calculations\<close>

text \<open>
  Label volumes hold Python integers. \<^verbatim>\<open>np.equal(truth, i)\<close> compares every voxel with
  the class index, \<^verbatim>\<open>.sum()\<close> counts the voxels that are \<^verbatim>\<open>True\<close> (an \<^verbatim>\<open>int64\<close>; a
  volume that fits in memory has far fewer than \<open>2^62\<close> voxels, so the counts, their sum
  and their double never wrap and are modelled as unbounded integers).
\<close>

definition np_equal :: "int ndarray \<Rightarrow> int \<Rightarrow> bool ndarray" where
  "np_equal a i = \<lparr>shape = shape a, data = map (\<lambda>v. v = i) (data a)\<rparr>"

definition np_logical_not :: "bool ndarray \<Rightarrow> bool ndarray" where
  "np_logical_not a = \<lparr>shape = shape a, data = map (\<lambda>b. \<not> b) (data a)\<rparr>"

definition np_logical_and :: "bool ndarray \<Rightarrow> bool ndarray \<Rightarrow> py_error + bool ndarray" where
  "np_logical_and a b =
     (if shape a = shape b
      then Inr \<lparr>shape = shape a, data = map2 (\<lambda>x y. x \<and> y) (data a) (data b)\<rparr>
      else Inl ShapeMismatch)"

definition np_sum :: "bool ndarray \<Rightarrow> int" where
  "np_sum a = int (length (filter (\<lambda>b. b) (data a)))"

text \<open>\<^verbatim>\<open>range(classes)\<close>: empty when \<open>classes\<close> is not positive.\<close>

definition py_range :: "int \<Rightarrow> int list" where
  "py_range n = map int [0..<nat n]"

text \<open>
  The three score functions are the same loop around different bodies. The body is the
  \<^verbatim>\<open>try\<close> block; the loop appends its result, appends \<open>0.0\<close> when the body raised
  \<^verbatim>\<open>ZeroDivisionError\<close>, and lets every other exception through.
\<close>

fun score_loop ::
  "(int \<Rightarrow> py_error + np_float) \<Rightarrow> int list \<Rightarrow> np_float list \<Rightarrow> py_error + np_float list"
where
  "score_loop body [] scores = Inr scores"
| "score_loop body (i # rest) scores =
     (case body i of
        Inr s \<Rightarrow> score_loop body rest (scores @ [s])
      | Inl ZeroDivisionError \<Rightarrow> score_loop body rest (scores @ [Finite 0])
      | Inl e \<Rightarrow> Inl e)"

definition dice_body :: "int ndarray \<Rightarrow> int ndarray \<Rightarrow> int \<Rightarrow> py_error + np_float" where
  "dice_body truth pred i =
     (let gt = np_equal truth i; pd = np_equal pred i in
      case np_logical_and pd gt of
        Inl e \<Rightarrow> Inl e
      | Inr both \<Rightarrow> Inr (np_true_divide (2 * np_sum both) (np_sum pd + np_sum gt)))"

definition calc_DSC :: "int ndarray \<Rightarrow> int ndarray \<Rightarrow> int \<Rightarrow> py_error + np_float list" where
  "calc_DSC truth pred classes = score_loop (dice_body truth pred) (py_range classes) []"

definition sens_body :: "int ndarray \<Rightarrow> int ndarray \<Rightarrow> int \<Rightarrow> py_error + np_float" where
  "sens_body truth pred i =
     (let gt = np_equal truth i; pd = np_equal pred i in
      case np_logical_and pd gt of
        Inl e \<Rightarrow> Inl e
      | Inr both \<Rightarrow> Inr (np_true_divide (np_sum both) (np_sum gt)))"

definition calc_Sensitivity ::
  "int ndarray \<Rightarrow> int ndarray \<Rightarrow> int \<Rightarrow> py_error + np_float list" where
  "calc_Sensitivity truth pred classes =
     score_loop (sens_body truth pred) (py_range classes) []"

definition spec_body :: "int ndarray \<Rightarrow> int ndarray \<Rightarrow> int \<Rightarrow> py_error + np_float" where
  "spec_body truth pred i =
     (let not_gt = np_logical_not (np_equal truth i);
          not_pd = np_logical_not (np_equal pred i) in
      case np_logical_and not_pd not_gt of
        Inl e \<Rightarrow> Inl e
      | Inr both \<Rightarrow> Inr (np_true_divide (np_sum both) (np_sum not_gt)))"

definition calc_Specificity ::
  "int ndarray \<Rightarrow> int ndarray \<Rightarrow> int \<Rightarrow> py_error + np_float list" where
  "calc_Specificity truth pred classes =
     score_loop (spec_body truth pred) (py_range classes) []"

text \<open>A score that is a real number of the closed interval from 0 to 1.\<close>

fun in_unit_interval :: "np_float \<Rightarrow> bool" where
  "in_unit_interval (Finite r) = (0 \<le> r \<and> r \<le> 1)"
| "in_unit_interval PosInf = False"
| "in_unit_interval NegInf = False"
| "in_unit_interval NaN = False"

section \<open>Overlay of a segmentation on a volume\<close>

text \<open>
  The intensity volume holds real-valued intensities: finite \<^verbatim>\<open>float64\<close> values, here
  the real numbers they denote.
  \<^verbatim>\<open>np.min\<close> and \<^verbatim>\<open>np.max\<close> raise \<^verbatim>\<open>ValueError\<close> on an array without elements.
\<close>

definition np_min :: "real ndarray \<Rightarrow> py_error + real" where
  "np_min a = (case data a of [] \<Rightarrow> Inl ValueError | x # xs \<Rightarrow> Inr (fold min xs x))"

definition np_max :: "real ndarray \<Rightarrow> py_error + real" where
  "np_max a = (case data a of [] \<Rightarrow> Inl ValueError | x # xs \<Rightarrow> Inr (fold max xs x))"

text \<open>
  Division of two \<^verbatim>\<open>float64\<close> values as IEEE 754 says. A zero divisor raises nothing: a
  zero over it is NaN, another finite number over it an infinity. A finite number over an
  infinity is zero, an infinity over an infinity NaN.
\<close>

fun np_divide :: "np_float \<Rightarrow> np_float \<Rightarrow> np_float" where
  "np_divide (Finite a) (Finite b) =
     (if b = 0 then (if a = 0 then NaN else if 0 < a then PosInf else NegInf)
      else ieee (a / b))"
| "np_divide (Finite a) PosInf = Finite 0"
| "np_divide (Finite a) NegInf = Finite 0"
| "np_divide PosInf (Finite b) = (if 0 \<le> b then PosInf else NegInf)"
| "np_divide NegInf (Finite b) = (if 0 \<le> b then NegInf else PosInf)"
| "np_divide PosInf PosInf = NaN"
| "np_divide PosInf NegInf = NaN"
| "np_divide NegInf PosInf = NaN"
| "np_divide NegInf NegInf = NaN"
| "np_divide NaN y = NaN"
| "np_divide (Finite a) NaN = NaN"
| "np_divide PosInf NaN = NaN"
| "np_divide NegInf NaN = NaN"

text \<open>
  \<^verbatim>\<open>vol_scaled = (vol - np.min(vol)) / (np.max(vol) - np.min(vol))\<close>: both differences
  are \<^verbatim>\<open>float64\<close> subtractions of finite numbers and can overflow to an infinity.
\<close>

definition vol_scaled :: "real ndarray \<Rightarrow> py_error + np_float ndarray" where
  "vol_scaled vol =
     (case np_min vol of
        Inl e \<Rightarrow> Inl e
      | Inr mn \<Rightarrow>
          (case np_max vol of
             Inl e \<Rightarrow> Inl e
           | Inr mx \<Rightarrow>
               Inr \<lparr>shape = shape vol,
                    data = map (\<lambda>v. np_divide (ieee (v - mn)) (ieee (mx - mn))) (data vol)\<rparr>))"

fun times_255 :: "np_float \<Rightarrow> np_float" where
  "times_255 (Finite r) = ieee (r * 255)"
| "times_255 PosInf = PosInf"
| "times_255 NegInf = NegInf"
| "times_255 NaN = NaN"

fun np_around :: "np_float \<Rightarrow> np_float" where
  "np_around (Finite r) = Finite (of_int (rint r))"
| "np_around PosInf = PosInf"
| "np_around NegInf = NegInf"
| "np_around NaN = NaN"

text \<open>
  \<^verbatim>\<open>.astype(np.uint8)\<close> of a \<^verbatim>\<open>float64\<close> is the conversion of C from \<^verbatim>\<open>double\<close> to
  \<^verbatim>\<open>unsigned char\<close>. A number above -1 and below 256 is cut towards zero to an integer.
  For every other value (NaN, an infinity, a number out of that range) the conversion is
  undefined: numpy raises nothing and stores a byte that depends on the platform. That
  byte is the parameter \<open>u\<close> of the model, a function of the value converted.
\<close>

definition astype_uint8 :: "(np_float \<Rightarrow> 8 word) \<Rightarrow> np_float \<Rightarrow> 8 word" where
  "astype_uint8 u x =
     (case x of
        Finite r \<Rightarrow>
          if - 1 < r \<and> r < 256 then word_of_int (if r < 0 then 0 else \<lfloor>r\<rfloor>) else u x
      | PosInf \<Rightarrow> u x
      | NegInf \<Rightarrow> u x
      | NaN \<Rightarrow> u x)"

text \<open>\<^verbatim>\<open>vol_greyscale = np.around(vol_scaled * 255, decimals=0).astype(np.uint8)\<close>\<close>

definition vol_greyscale ::
  "(np_float \<Rightarrow> 8 word) \<Rightarrow> real ndarray \<Rightarrow> py_error + 8 word ndarray" where
  "vol_greyscale u vol =
     (case vol_scaled vol of
        Inl e \<Rightarrow> Inl e
      | Inr sc \<Rightarrow>
          Inr \<lparr>shape = shape sc,
               data = map (\<lambda>x. astype_uint8 u (np_around (times_255 x))) (data sc)\<rparr>)"

text \<open>
  \<^verbatim>\<open>np.stack([a, a, a], axis=-1)\<close>: a new last axis of size 3; in row-major order the
  three copies of an element follow each other.
\<close>

definition np_stack3 :: "'a ndarray \<Rightarrow> 'a ndarray" where
  "np_stack3 a = \<lparr>shape = shape a @ [3], data = concat (map (\<lambda>x. [x, x, x]) (data a))\<rparr>"

definition np_zeros :: "nat list \<Rightarrow> int ndarray" where
  "np_zeros shp = \<lparr>shape = shp, data = replicate (prod_list shp) 0\<rparr>"

text \<open>
  \<^verbatim>\<open>a[mask] = row\<close> for a mask over all axes of \<open>a\<close> but the last, which has size 3:
  element \<open>p\<close> of \<open>a\<close> belongs to voxel \<open>p div 3\<close> and is its channel \<open>p mod 3\<close>.
\<close>

definition mask_assign :: "bool ndarray \<Rightarrow> int list \<Rightarrow> int ndarray \<Rightarrow> int ndarray" where
  "mask_assign msk row a =
     \<lparr>shape = shape a,
      data = map (\<lambda>p. if data msk ! (p div 3) then row ! (p mod 3) else data a ! p)
               [0..<length (data a)]\<rparr>"

definition np_greater :: "int ndarray \<Rightarrow> int \<Rightarrow> bool ndarray" where
  "np_greater a i = \<lparr>shape = shape a, data = map (\<lambda>v. i < v) (data a)\<rparr>"

text \<open>
  \<^verbatim>\<open>alpha = 0.3\<close> is the double nearest to 3/10, and \<^verbatim>\<open>1-alpha\<close> is computed in doubles.
  \<open>blend u c g\<close> is one element of
  \<^verbatim>\<open>np.round(alpha*seg_rgb+(1-alpha)*vol_rgb).astype(np.uint8)\<close>, for the colour value \<open>c\<close>
  (an \<^verbatim>\<open>int64\<close>) and the grey value \<open>g\<close> (a \<^verbatim>\<open>uint8\<close>); both products and the sum are
  \<^verbatim>\<open>float64\<close> operations. For the colour values 0 and 255 that occur, each exact value
  is zero or lies between \<open>0.6\<close> and 255, a normal number, where the rounding is
  \<open>round53\<close>.
\<close>

definition alpha :: real where
  "alpha = round53 (3 / 10)"

definition blend :: "(np_float \<Rightarrow> 8 word) \<Rightarrow> int \<Rightarrow> 8 word \<Rightarrow> 8 word" where
  "blend u c g =
     astype_uint8 u (np_around (Finite (round53
       (round53 (alpha * of_int c) + round53 (round53 (1 - alpha) * of_nat (unat g))))))"

text \<open>\<^verbatim>\<open>np.where(cond, a, b)\<close> for three arrays of one shape.\<close>

definition np_where :: "bool ndarray \<Rightarrow> 'a ndarray \<Rightarrow> 'a ndarray \<Rightarrow> 'a ndarray" where
  "np_where cond a b =
     \<lparr>shape = shape cond,
      data = map (\<lambda>(c, x, y). if c then x else y) (zip (data cond) (zip (data a) (data b)))\<rparr>"

text \<open>
  \<^verbatim>\<open>overlay_segmentation(vol, seg)\<close>, with the conversion \<open>u\<close> of the platform as a
  further argument. The second branch of \<^verbatim>\<open>np.where\<close>,
  \<^verbatim>\<open>np.round(vol_rgb).astype(np.uint8)\<close>, rounds and converts a \<^verbatim>\<open>uint8\<close> array, which
  leaves it as it is. \<^verbatim>\<open>np.min(vol)\<close> is evaluated first, then \<^verbatim>\<open>seg.shape[2]\<close>. The
  mask assignments fit a segmentation of exactly three axes and the final \<^verbatim>\<open>np.where\<close>
  a volume of the same shape; for other shapes, where numpy raises or broadcasts
  according to the sizes, the model stops with \<open>ShapeMismatch\<close>.
\<close>

definition overlay_segmentation ::
  "(np_float \<Rightarrow> 8 word) \<Rightarrow> real ndarray \<Rightarrow> int ndarray \<Rightarrow> py_error + 8 word ndarray" where
  "overlay_segmentation u vol seg =
     (case vol_greyscale u vol of
        Inl e \<Rightarrow> Inl e
      | Inr grey \<Rightarrow>
          let vol_rgb = np_stack3 grey in
          if length (shape seg) < 3 then Inl IndexError
          else if 3 < length (shape seg) then Inl ShapeMismatch
          else
            let seg_rgb0 = np_zeros (shape seg @ [3]);
                seg_rgb1 = mask_assign (np_equal seg 1) [0, 0, 255] seg_rgb0;
                seg_rgb2 = mask_assign (np_equal seg 2) [0, 0, 255] seg_rgb1;
                seg_rgb = mask_assign (np_equal seg 3) [255, 0, 0] seg_rgb2;
                segbin = np_greater seg 0;
                repeated_segbin = np_stack3 segbin
            in if shape vol = shape seg
               then Inr (np_where repeated_segbin
                          \<lparr>shape = shape seg_rgb,
                           data = map2 (blend u) (data seg_rgb) (data vol_rgb)\<rparr>
                          vol_rgb)
               else Inl ShapeMismatch)"

text \<open>The channels of voxel \<open>j\<close> of an array whose last axis has size 3.\<close>

definition voxel :: "'a ndarray \<Rightarrow> nat \<Rightarrow> 'a list" where
  "voxel a j = [data a ! (3 * j), data a ! (3 * j + 1), data a ! (3 * j + 2)]"

section \<open>Vocabulary of the specification\<close>

text \<open>
  The numbers of voxels the specification speaks of: \<open>count_label a i\<close> voxels of \<open>a\<close>
  carry the label \<open>i\<close> and \<open>count_other a i\<close> carry another one; \<open>count_both a b i\<close>
  voxels carry \<open>i\<close> in both volumes and \<open>count_neither a b i\<close> in neither.
\<close>

definition count_label :: "int ndarray \<Rightarrow> int \<Rightarrow> int" where
  "count_label a i = int (length (filter (\<lambda>v. v = i) (data a)))"

definition count_other :: "int ndarray \<Rightarrow> int \<Rightarrow> int" where
  "count_other a i = int (length (filter (\<lambda>v. v \<noteq> i) (data a)))"

definition count_both :: "int ndarray \<Rightarrow> int ndarray \<Rightarrow> int \<Rightarrow> int" where
  "count_both a b i =
     int (length (filter (\<lambda>(x, y). x = i \<and> y = i) (zip (data a) (data b))))"

definition count_neither :: "int ndarray \<Rightarrow> int ndarray \<Rightarrow> int \<Rightarrow> int" where
  "count_neither a b i =
     int (length (filter (\<lambda>(x, y). x \<noteq> i \<and> y \<noteq> i) (zip (data a) (data b))))"

text \<open>The colour \<^verbatim>\<open>seg_rgb\<close> holds for a label after the three mask assignments.\<close>

definition label_colour :: "int \<Rightarrow> int list" where
  "label_colour l =
     (if l = 1 \<or> l = 2 then [0, 0, 255] else if l = 3 then [255, 0, 0] else [0, 0, 0])"

section \<open>Rounding to double precision\<close>

lemma binade_pos: "0 < binade x"
  by (induction x rule: binade.induct) (subst binade.simps, simp)

lemma binade_bounds: "0 < x \<Longrightarrow> binade x \<le> x \<and> x < 2 * binade x"
proof (induction x rule: binade.induct)
  case (1 x)
  show ?case
  proof (cases "2 \<le> x")
    case True
    with 1 have "binade (x / 2) \<le> x / 2 \<and> x / 2 < 2 * binade (x / 2)" by simp
    with True 1 show ?thesis by (subst (1 2) binade.simps) simp
  next
    case False
    show ?thesis
    proof (cases "x < 1")
      case True
      with 1 False have "binade (2 * x) \<le> 2 * x \<and> 2 * x < 2 * binade (2 * x)" by simp
      with True False 1 show ?thesis by (subst (1 2) binade.simps) simp
    next
      case F2: False
      with False 1 show ?thesis by (subst (1 2) binade.simps) simp
    qed
  qed
qed

lemma binade_power: "\<exists>k::int. binade x = 2 powi k"
proof (induction x rule: binade.induct)
  case (1 x)
  show ?case
  proof (cases "x \<le> 0")
    case True
    then have "binade x = 2 powi 0" by (subst binade.simps) simp
    then show ?thesis by blast
  next
    case pos: False
    show ?thesis
    proof (cases "2 \<le> x")
      case True
      with 1 pos obtain k :: int where "binade (x / 2) = 2 powi k" by auto
      with True pos have "binade x = 2 powi (k + 1)"
        by (subst binade.simps) (simp add: power_int_add)
      then show ?thesis by blast
    next
      case False
      show ?thesis
      proof (cases "x < 1")
        case True
        with 1 pos False obtain k :: int where "binade (2 * x) = 2 powi k" by auto
        with True pos False have "binade x = 2 powi (k - 1)"
          by (subst binade.simps) (simp add: power_int_diff)
        then show ?thesis by blast
      next
        case F3: False
        with pos False have "binade x = 2 powi 0" by (subst binade.simps) simp
        then show ?thesis by blast
      qed
    qed
  qed
qed

lemma powi_less_imp: "(2::real) powi k < 2 powi m \<Longrightarrow> k < m"
proof (rule ccontr)
  assume a: "(2::real) powi k < 2 powi m" and "\<not> k < m"
  then have "m \<le> k" by simp
  then have "(2::real) powi m \<le> 2 powi k" by (intro power_int_increasing) simp_all
  with a show False by simp
qed

lemma binade_mono:
  assumes "0 < x" "x \<le> y"
  shows "binade x = binade y \<or> 2 * binade x \<le> binade y"
proof -
  obtain k l :: int where k: "binade x = 2 powi k" and l: "binade y = 2 powi l"
    using binade_power by meson
  have "binade x \<le> x" using binade_bounds assms by simp
  also have "\<dots> \<le> y" by fact
  also have "\<dots> < 2 * binade y" using binade_bounds assms by simp
  finally have "(2::real) powi k < 2 powi (l + 1)" using k l by (simp add: power_int_add)
  then have "k < l + 1" by (rule powi_less_imp)
  then have "k = l \<or> k + 1 \<le> l" by linarith
  then show ?thesis
  proof
    assume "k = l" then show ?thesis using k l by simp
  next
    assume "k + 1 \<le> l"
    then have "(2::real) powi (k + 1) \<le> 2 powi l" by (intro power_int_increasing) simp_all
    then show ?thesis using k l by (simp add: power_int_add)
  qed
qed

lemma rint_near: "\<bar>of_int (rint x) - x\<bar> \<le> 1 / 2"
  unfolding rint_def Let_def by (auto; linarith)

lemma rint_of_int: "rint (of_int n) = n"
  by (simp add: rint_def)

lemma rint_mono: assumes "x \<le> y" shows "rint x \<le> rint y"
proof (rule ccontr)
  assume "\<not> rint x \<le> rint y"
  then have gt: "rint y + 1 \<le> rint x" by simp
  have nx: "\<bar>of_int (rint x) - x\<bar> \<le> 1 / 2" and ny: "\<bar>of_int (rint y) - y\<bar> \<le> 1 / 2"
    by (rule rint_near)+
  from gt have "real_of_int (rint y) + 1 \<le> of_int (rint x)" by linarith
  with nx ny assms have "x = y" by linarith
  with gt show False by simp
qed

lemma rint_minus: "rint (- x) = - rint x"
proof (cases "x = of_int \<lfloor>x\<rfloor>")
  case True
  then obtain n :: int where "x = of_int n" by metis
  then have "- x = of_int (- n)" by simp
  then show ?thesis using \<open>x = of_int n\<close> rint_of_int by metis
next
  case False
  then have fl: "\<lfloor>- x\<rfloor> = - \<lfloor>x\<rfloor> - 1" by linarith
  have "even (- \<lfloor>x\<rfloor> - 1) \<longleftrightarrow> odd \<lfloor>x\<rfloor>" by simp
  then show ?thesis
    unfolding rint_def Let_def fl by (auto; linarith)
qed

lemma round53_zero: "round53 0 = 0"
  by (simp add: round53_def)

lemma round53_minus: "round53 (- x) = - round53 x"
  by (simp add: round53_def Let_def rint_minus)

lemma round53_pos_bounds:
  assumes "0 < x"
  shows "binade x \<le> round53 x \<and> round53 x \<le> 2 * binade x"
proof -
  define q where "q = binade x / 2 ^ 52"
  have q: "0 < q" using binade_pos by (simp add: q_def)
  have b: "binade x \<le> x" "x < 2 * binade x" using binade_bounds assms by simp_all
  have bq: "binade x = 2 ^ 52 * q" by (simp add: q_def)
  have "of_int (2 ^ 52) \<le> x / q" using b q by (simp add: bq pos_le_divide_eq)
  then have lo: "2 ^ 52 \<le> rint (x / q)" using rint_mono rint_of_int by metis
  have "x / q \<le> of_int (2 ^ 53)" using b q by (simp add: bq pos_divide_le_eq)
  then have hi: "rint (x / q) \<le> 2 ^ 53" using rint_mono rint_of_int by metis
  have f: "round53 x = of_int (rint (x / q)) * q"
    using assms by (simp add: round53_def Let_def q_def)
  have lo': "(2::real) ^ 52 \<le> of_int (rint (x / q))"
    using of_int_le_iff [of "2 ^ 52" "rint (x / q)", where ?'a = real] lo by simp
  have hi': "of_int (rint (x / q)) \<le> (2::real) ^ 53"
    using of_int_le_iff [of "rint (x / q)" "2 ^ 53", where ?'a = real] hi by simp
  have "2 ^ 52 * q \<le> of_int (rint (x / q)) * q"
    using lo' q by (intro mult_right_mono) simp_all
  moreover have "of_int (rint (x / q)) * q \<le> 2 ^ 53 * q"
    using hi' q by (intro mult_right_mono) simp_all
  ultimately show ?thesis by (simp add: f bq)
qed

lemma round53_pos: "0 < x \<Longrightarrow> 0 < round53 x"
  using round53_pos_bounds [of x] binade_pos [of x] by linarith

lemma round53_mono_pos:
  assumes "0 < x" "x \<le> y"
  shows "round53 x \<le> round53 y"
proof -
  from binade_mono [OF assms] show ?thesis
  proof
    assume eq: "binade x = binade y"
    define q where "q = binade y / 2 ^ 52"
    have q: "0 < q" using binade_pos by (simp add: q_def)
    have "x / q \<le> y / q" using assms q by (simp add: divide_right_mono)
    then have "rint (x / q) \<le> rint (y / q)" by (rule rint_mono)
    then have "real_of_int (rint (x / q)) * q \<le> of_int (rint (y / q)) * q"
      using q by (intro mult_right_mono) simp_all
    then show ?thesis using assms eq by (simp add: round53_def Let_def q_def)
  next
    assume "2 * binade x \<le> binade y"
    moreover have "round53 x \<le> 2 * binade x" using round53_pos_bounds assms by simp
    moreover have "binade y \<le> round53 y" using round53_pos_bounds assms by simp
    ultimately show ?thesis by linarith
  qed
qed

lemma round53_mono: assumes "x \<le> y" shows "round53 x \<le> round53 y"
proof -
  consider "0 < x" | "x = 0" | "x < 0" "0 \<le> y" | "x < 0" "y < 0" by linarith
  then show ?thesis
  proof cases
    case 1 then show ?thesis using assms by (rule round53_mono_pos)
  next
    case 2
    then show ?thesis using assms round53_pos [of y] by (cases "y = 0") (simp_all add: round53_zero)
  next
    case 3
    have "round53 x < 0" using round53_pos [of "- x"] 3 by (simp add: round53_minus)
    moreover have "0 \<le> round53 y" using round53_pos [of y] 3 by (cases "y = 0") (simp_all add: round53_zero)
    ultimately show ?thesis by simp
  next
    case 4
    then have "round53 (- y) \<le> round53 (- x)" using assms by (intro round53_mono_pos) simp_all
    then show ?thesis by (simp add: round53_minus)
  qed
qed

lemma round53_one: "round53 1 = 1"
  by (simp add: round53_def binade.simps rint_def Let_def)

lemma round53_255: "round53 255 = 255"
  by (simp add: round53_def binade.simps rint_def Let_def)

section \<open>Properties of the score calculations\<close>

text \<open>
  The counts are the sizes of the sets of voxels the specification names: the voxels
  labelled \<open>i\<close> in a volume, and the intersection of two such sets.
\<close>

lemma count_label_card:
  "count_label a i = int (card {j. j < length (data a) \<and> data a ! j = i})"
  by (simp add: count_label_def length_filter_conv_card)

lemma count_both_card:
  assumes "length (data a) = length (data b)"
  shows "count_both a b i =
    int (card ({j. j < length (data a) \<and> data a ! j = i}
               \<inter> {j. j < length (data b) \<and> data b ! j = i}))"
proof -
  have "{k. k < length (zip (data a) (data b)) \<and>
            (case zip (data a) (data b) ! k of (x, y) \<Rightarrow> x = i \<and> y = i)}
      = {j. j < length (data a) \<and> data a ! j = i} \<inter> {j. j < length (data b) \<and> data b ! j = i}"
    using assms by auto
  then show ?thesis by (simp add: count_both_def length_filter_conv_card)
qed

lemma count_neither_card:
  assumes "length (data a) = length (data b)"
  shows "count_neither a b i =
    int (card ({j. j < length (data a) \<and> data a ! j \<noteq> i}
               \<inter> {j. j < length (data b) \<and> data b ! j \<noteq> i}))"
proof -
  have "{k. k < length (zip (data a) (data b)) \<and>
            (case zip (data a) (data b) ! k of (x, y) \<Rightarrow> x \<noteq> i \<and> y \<noteq> i)}
      = {j. j < length (data a) \<and> data a ! j \<noteq> i} \<inter> {j. j < length (data b) \<and> data b ! j \<noteq> i}"
    using assms by auto
  then show ?thesis by (simp add: count_neither_def length_filter_conv_card)
qed

lemma count_other_card:
  "count_other a i = int (card {j. j < length (data a) \<and> data a ! j \<noteq> i})"
  by (simp add: count_other_def length_filter_conv_card)

lemma score_loop_total:
  assumes "\<And>i. i \<in> set cs \<Longrightarrow> body i = Inr (f i)"
  shows "score_loop body cs acc = Inr (acc @ map f cs)"
  using assms by (induction cs arbitrary: acc) simp_all

lemma filter_map2_and:
  "length (filter (\<lambda>b. b) (map2 (\<lambda>x y. x \<and> y) (map P xs) (map Q ys)))
   = length (filter (\<lambda>(x, y). P x \<and> Q y) (zip xs ys))"
  by (induction xs ys rule: list_induct2') simp_all

lemma np_sum_equal: "np_sum (np_equal a i) = count_label a i"
  by (simp add: np_sum_def np_equal_def count_label_def filter_map comp_def)

lemma np_sum_not_equal: "np_sum (np_logical_not (np_equal a i)) = count_other a i"
  by (simp add: np_sum_def np_equal_def np_logical_not_def count_other_def filter_map comp_def)

lemma dice_body_eq:
  assumes "shape truth = shape pred"
  shows "dice_body truth pred i =
    Inr (np_true_divide (2 * count_both pred truth i) (count_label pred i + count_label truth i))"
proof -
  have "np_logical_and (np_equal pred i) (np_equal truth i) =
        Inr \<lparr>shape = shape pred,
             data = map2 (\<lambda>x y. x \<and> y) (map (\<lambda>v. v = i) (data pred)) (map (\<lambda>v. v = i) (data truth))\<rparr>"
    using assms by (simp add: np_logical_and_def np_equal_def)
  moreover have "np_sum \<lparr>shape = shape pred,
             data = map2 (\<lambda>x y. x \<and> y) (map (\<lambda>v. v = i) (data pred)) (map (\<lambda>v. v = i) (data truth))\<rparr>
        = count_both pred truth i"
    using filter_map2_and [of "\<lambda>v. v = i" "data pred" "\<lambda>v. v = i" "data truth"]
    by (simp add: np_sum_def count_both_def)
  ultimately show ?thesis
    by (simp add: dice_body_def Let_def np_sum_equal)
qed

lemma sens_body_eq:
  assumes "shape truth = shape pred"
  shows "sens_body truth pred i =
    Inr (np_true_divide (count_both pred truth i) (count_label truth i))"
proof -
  have "np_logical_and (np_equal pred i) (np_equal truth i) =
        Inr \<lparr>shape = shape pred,
             data = map2 (\<lambda>x y. x \<and> y) (map (\<lambda>v. v = i) (data pred)) (map (\<lambda>v. v = i) (data truth))\<rparr>"
    using assms by (simp add: np_logical_and_def np_equal_def)
  moreover have "np_sum \<lparr>shape = shape pred,
             data = map2 (\<lambda>x y. x \<and> y) (map (\<lambda>v. v = i) (data pred)) (map (\<lambda>v. v = i) (data truth))\<rparr>
        = count_both pred truth i"
    using filter_map2_and [of "\<lambda>v. v = i" "data pred" "\<lambda>v. v = i" "data truth"]
    by (simp add: np_sum_def count_both_def)
  ultimately show ?thesis
    by (simp add: sens_body_def Let_def np_sum_equal)
qed

lemma spec_body_eq:
  assumes "shape truth = shape pred"
  shows "spec_body truth pred i =
    Inr (np_true_divide (count_neither pred truth i) (count_other truth i))"
proof -
  have "np_logical_and (np_logical_not (np_equal pred i)) (np_logical_not (np_equal truth i)) =
        Inr \<lparr>shape = shape pred,
             data = map2 (\<lambda>x y. x \<and> y) (map (\<lambda>v. v \<noteq> i) (data pred)) (map (\<lambda>v. v \<noteq> i) (data truth))\<rparr>"
    using assms by (simp add: np_logical_and_def np_equal_def np_logical_not_def comp_def)
  moreover have "np_sum \<lparr>shape = shape pred,
             data = map2 (\<lambda>x y. x \<and> y) (map (\<lambda>v. v \<noteq> i) (data pred)) (map (\<lambda>v. v \<noteq> i) (data truth))\<rparr>
        = count_neither pred truth i"
    using filter_map2_and [of "\<lambda>v. v \<noteq> i" "data pred" "\<lambda>v. v \<noteq> i" "data truth"]
    by (simp add: np_sum_def count_neither_def)
  ultimately show ?thesis
    by (simp add: spec_body_def Let_def np_sum_not_equal)
qed

lemma calc_DSC_eq:
  assumes "shape truth = shape pred"
  shows "calc_DSC truth pred classes =
    Inr (map (\<lambda>i. np_true_divide (2 * count_both pred truth i)
                     (count_label pred i + count_label truth i)) (py_range classes))"
  unfolding calc_DSC_def using score_loop_total [of _ "dice_body truth pred" _ "[]"]
  by (simp add: dice_body_eq [OF assms])

lemma calc_Sensitivity_eq:
  assumes "shape truth = shape pred"
  shows "calc_Sensitivity truth pred classes =
    Inr (map (\<lambda>i. np_true_divide (count_both pred truth i) (count_label truth i))
           (py_range classes))"
  unfolding calc_Sensitivity_def using score_loop_total [of _ "sens_body truth pred" _ "[]"]
  by (simp add: sens_body_eq [OF assms])

lemma calc_Specificity_eq:
  assumes "shape truth = shape pred"
  shows "calc_Specificity truth pred classes =
    Inr (map (\<lambda>i. np_true_divide (count_neither pred truth i) (count_other truth i))
           (py_range classes))"
  unfolding calc_Specificity_def using score_loop_total [of _ "spec_body truth pred" _ "[]"]
  by (simp add: spec_body_eq [OF assms])

lemma py_range_nth: "0 \<le> i \<Longrightarrow> i < n \<Longrightarrow> py_range n ! nat i = i"
  by (simp add: py_range_def)

lemma py_range_length: "length (py_range n) = nat n"
  by (simp add: py_range_def)

lemma np_true_divide_self: "a \<noteq> 0 \<Longrightarrow> np_true_divide a a = Finite 1"
proof -
  assume "a \<noteq> 0"
  then have "round53 (of_int a) \<noteq> 0"
    using round53_pos [of "of_int a"] round53_pos [of "- of_int a"]
    by (cases "0 < a") (simp_all add: round53_minus)
  then show ?thesis using \<open>a \<noteq> 0\<close> by (simp add: np_true_divide_def round53_one)
qed

lemma count_both_same: "count_both v v i = count_label v i"
proof -
  have "length (filter (\<lambda>(x, y). x = i \<and> y = i) (zip xs xs)) = length (filter (\<lambda>v. v = i) xs)"
    for xs :: "int list"
    by (induction xs) simp_all
  then show ?thesis by (simp add: count_both_def count_label_def)
qed

lemma count_neither_same: "count_neither v v i = count_other v i"
proof -
  have "length (filter (\<lambda>(x, y). x \<noteq> i \<and> y \<noteq> i) (zip xs xs)) = length (filter (\<lambda>v. v \<noteq> i) xs)"
    for xs :: "int list"
    by (induction xs) simp_all
  then show ?thesis by (simp add: count_neither_def count_other_def)
qed

lemma filter_hit: "x \<in> set xs \<Longrightarrow> P x \<Longrightarrow> 0 < length (filter P xs)"
  by (induction xs) auto

lemma count_label_pos: "i \<in> set (data v) \<Longrightarrow> 0 < count_label v i"
  by (simp add: count_label_def filter_hit del: length_greater_0_conv)

lemma count_other_pos: "l \<in> set (data v) \<Longrightarrow> l \<noteq> i \<Longrightarrow> 0 < count_other v i"
  by (simp add: count_other_def filter_hit del: length_greater_0_conv)

lemma count_both_le:
  "count_both a b i \<le> count_label a i \<and> count_both a b i \<le> count_label b i"
proof -
  have "length (filter (\<lambda>(x, y). x = i \<and> y = i) (zip xs ys)) \<le> length (filter (\<lambda>v. v = i) xs)
      \<and> length (filter (\<lambda>(x, y). x = i \<and> y = i) (zip xs ys)) \<le> length (filter (\<lambda>v. v = i) ys)"
    for xs ys :: "int list"
    by (induction xs ys rule: list_induct2') simp_all
  then show ?thesis by (simp add: count_both_def count_label_def)
qed

lemma count_neither_le: "count_neither a b i \<le> count_other b i"
proof -
  have "length (filter (\<lambda>(x, y). x \<noteq> i \<and> y \<noteq> i) (zip xs ys)) \<le> length (filter (\<lambda>v. v \<noteq> i) ys)"
    for xs ys :: "int list"
    by (induction xs ys rule: list_induct2') simp_all
  then show ?thesis by (simp add: count_neither_def count_other_def)
qed

lemma np_true_divide_range:
  assumes "0 \<le> a" "a \<le> b"
  shows "np_true_divide a b = NaN \<and> b = 0 \<or> in_unit_interval (np_true_divide a b) \<and> b \<noteq> 0"
proof (cases "b = 0")
  case True
  then show ?thesis using assms by (simp add: np_true_divide_def)
next
  case False
  then have b: "0 < b" using assms by simp
  have fb: "0 < round53 (of_int b)" using b by (simp add: round53_pos)
  have fa: "0 \<le> round53 (of_int a)"
    using round53_mono [of 0 "of_int a"] assms by (simp add: round53_zero)
  have ab: "round53 (of_int a) \<le> round53 (of_int b)"
    using assms by (intro round53_mono) simp
  have "0 \<le> round53 (of_int a) / round53 (of_int b)" using fa fb by simp
  then have lo: "0 \<le> round53 (round53 (of_int a) / round53 (of_int b))"
    using round53_mono [of 0] by (simp add: round53_zero)
  have "round53 (of_int a) / round53 (of_int b) \<le> 1" using ab fb by simp
  then have hi: "round53 (round53 (of_int a) / round53 (of_int b)) \<le> 1"
    using round53_mono [of _ 1] by (simp add: round53_one)
  show ?thesis using False lo hi by (simp add: np_true_divide_def)
qed

lemma count_label_nonneg: "0 \<le> count_label a i"
  by (simp add: count_label_def)

lemma count_both_nonneg: "0 \<le> count_both a b i"
  by (simp add: count_both_def)

lemma count_neither_nonneg: "0 \<le> count_neither a b i"
  by (simp add: count_neither_def)

lemma count_label_zero_iff: "count_label a i = 0 \<longleftrightarrow> i \<notin> set (data a)"
  by (auto simp: count_label_def filter_empty_conv)

lemma count_both_disjoint:
  assumes "set (data a) \<inter> set (data b) = {}"
  shows "count_both a b i = 0"
proof -
  have "\<not> (x = i \<and> y = i)" if "(x, y) \<in> set (zip (data a) (data b))" for x y
    using that assms by (auto dest: set_zip_leftD set_zip_rightD)
  then show ?thesis by (auto simp: count_both_def filter_empty_conv)
qed

lemma np_true_divide_zero: "b \<noteq> 0 \<Longrightarrow> np_true_divide 0 b = Finite 0"
  by (simp add: np_true_divide_def round53_zero)

text \<open>
  What the three functions return for volumes of one shape. A class whose divisor is zero
  gets NaN: the handler for \<^verbatim>\<open>ZeroDivisionError\<close> never runs. Every other score is a
  number from 0 to 1.
\<close>

lemma calc_DSC_zero_denominator:
  assumes "shape truth = shape pred" "0 \<le> i" "i < classes"
    and "count_label pred i + count_label truth i = 0"
  shows "\<exists>ds. calc_DSC truth pred classes = Inr ds \<and> ds ! nat i = NaN"
proof -
  have "count_both pred truth i = 0"
    using count_both_le [of pred truth i] count_both_nonneg [of pred truth i] count_neither_nonneg [of pred truth i] assms(4) by linarith
  then show ?thesis
    using assms by (simp add: calc_DSC_eq py_range_length py_range_nth np_true_divide_def)
qed

lemma calc_Sensitivity_zero_denominator:
  assumes "shape truth = shape pred" "0 \<le> i" "i < classes"
    and "count_label truth i = 0"
  shows "\<exists>ss. calc_Sensitivity truth pred classes = Inr ss \<and> ss ! nat i = NaN"
proof -
  have "count_both pred truth i = 0"
    using count_both_le [of pred truth i] count_both_nonneg [of pred truth i] count_neither_nonneg [of pred truth i] assms(4) by linarith
  then show ?thesis
    using assms by (simp add: calc_Sensitivity_eq py_range_length py_range_nth np_true_divide_def)
qed

lemma calc_Specificity_zero_denominator:
  assumes "shape truth = shape pred" "0 \<le> i" "i < classes"
    and "count_other truth i = 0"
  shows "\<exists>sp. calc_Specificity truth pred classes = Inr sp \<and> sp ! nat i = NaN"
proof -
  have "count_neither pred truth i = 0"
    using count_neither_le [of pred truth i] count_both_nonneg [of pred truth i] count_neither_nonneg [of pred truth i] assms(4) by linarith
  then show ?thesis
    using assms by (simp add: calc_Specificity_eq py_range_length py_range_nth np_true_divide_def)
qed

lemma calc_DSC_disjoint:
  assumes "shape truth = shape pred" "0 \<le> i" "i < classes"
    and "set (data truth) \<inter> set (data pred) = {}"
  shows "\<exists>ds. calc_DSC truth pred classes = Inr ds \<and>
    ds ! nat i = (if i \<in> set (data truth) \<or> i \<in> set (data pred) then Finite 0 else NaN)"
proof -
  have both: "count_both pred truth i = 0"
    using assms(4) by (intro count_both_disjoint) auto
  have den: "count_label pred i + count_label truth i = 0 \<longleftrightarrow>
      \<not> (i \<in> set (data truth) \<or> i \<in> set (data pred))"
    using count_label_nonneg [of pred i] count_label_nonneg [of truth i]
      count_label_zero_iff [of pred i] count_label_zero_iff [of truth i] by linarith
  show ?thesis
  proof (cases "i \<in> set (data truth) \<or> i \<in> set (data pred)")
    case True
    then have "count_label pred i + count_label truth i \<noteq> 0" using den by simp
    then show ?thesis
      using assms True both
      by (simp add: calc_DSC_eq py_range_length py_range_nth np_true_divide_zero)
  next
    case False
    then have "count_label pred i + count_label truth i = 0" using den by simp
    then show ?thesis
      using assms False both
      by (simp add: calc_DSC_eq py_range_length py_range_nth np_true_divide_def)
  qed
qed

lemma scores_length_and_range:
  assumes "shape truth = shape pred"
  shows "\<exists>ds ss sp.
     calc_DSC truth pred classes = Inr ds \<and> calc_Sensitivity truth pred classes = Inr ss \<and>
     calc_Specificity truth pred classes = Inr sp \<and>
     length ds = nat classes \<and> length ss = nat classes \<and> length sp = nat classes \<and>
     (\<forall>x \<in> set (ds @ ss @ sp). in_unit_interval x \<or> x = NaN)"
proof -
  have d: "in_unit_interval (np_true_divide (2 * count_both pred truth i)
                     (count_label pred i + count_label truth i)) \<or>
     np_true_divide (2 * count_both pred truth i)
                     (count_label pred i + count_label truth i) = NaN" for i
    using np_true_divide_range [of "2 * count_both pred truth i" "count_label pred i + count_label truth i"]
      count_both_le [of pred truth i] count_both_nonneg [of pred truth i] by auto
  have s: "in_unit_interval (np_true_divide (count_both pred truth i) (count_label truth i)) \<or>
     np_true_divide (count_both pred truth i) (count_label truth i) = NaN" for i
    using np_true_divide_range [of "count_both pred truth i" "count_label truth i"]
      count_both_le [of pred truth i] count_both_nonneg [of pred truth i] by auto
  have p: "in_unit_interval (np_true_divide (count_neither pred truth i) (count_other truth i)) \<or>
     np_true_divide (count_neither pred truth i) (count_other truth i) = NaN" for i
    using np_true_divide_range [of "count_neither pred truth i" "count_other truth i"]
      count_neither_le [of pred truth i] count_neither_nonneg [of pred truth i] by auto
  show ?thesis
    using d s p
    by (auto simp: calc_DSC_eq [OF assms] calc_Sensitivity_eq [OF assms]
        calc_Specificity_eq [OF assms] py_range_length)
qed

subsection \<open>The claims about the scores\<close>

text \<open>
  Claim C1. The claim: element \<open>i\<close> of \<^verbatim>\<open>calc_DSC\<close> is
  \<open>2 * |pred_i \<inter> truth_i| / (|pred_i| + |truth_i|)\<close>, and 0 when that divisor is 0.
  The code does not do the second part. For a volume of one background voxel as truth and
  as prediction and two classes, class 1 occurs in neither volume; the division is
  \<open>0 / 0\<close> on numpy integers, which gives NaN and raises nothing, so the result is
  \<open>[1.0, nan]\<close>.
\<close>

theorem calc_DSC_absent_class:
  "calc_DSC \<lparr>shape = [1, 1, 1], data = [0]\<rparr> \<lparr>shape = [1, 1, 1], data = [0]\<rparr> 2
     = Inr [Finite 1, NaN]"
  by code_simp

text \<open>
  Claim C2. The claim: element \<open>i\<close> of \<^verbatim>\<open>calc_Sensitivity\<close> is
  \<open>|pred_i \<inter> truth_i| / |truth_i|\<close>, and 0.0 when the truth has no voxel of class
  \<open>i\<close>. The code returns NaN there: for a truth of one background voxel, a prediction of
  one voxel of class 1 and two classes the result is \<open>[0.0, nan]\<close>.
\<close>

theorem calc_Sensitivity_absent_class:
  "calc_Sensitivity \<lparr>shape = [1, 1, 1], data = [0]\<rparr> \<lparr>shape = [1, 1, 1], data = [1]\<rparr> 2
     = Inr [Finite 0, NaN]"
  by code_simp

text \<open>
  Claim C3. The claim: element \<open>i\<close> of \<^verbatim>\<open>calc_Specificity\<close> is the number of voxels
  labelled \<open>i\<close> in neither volume over the number of voxels not labelled \<open>i\<close> in the
  truth, and 0.0 when every voxel of the truth is labelled \<open>i\<close>. The code returns NaN
  there: for a truth of two background voxels, the prediction \<open>[0, 1]\<close> and two classes
  the result is \<open>[nan, 0.5]\<close>.
\<close>

theorem calc_Specificity_full_class:
  "calc_Specificity \<lparr>shape = [1, 1, 2], data = [0, 0]\<rparr> \<lparr>shape = [1, 1, 2], data = [0, 1]\<rparr> 2
     = Inr [NaN, Finite (1 / 2)]"
  by code_simp

text \<open>
  Claim C4, as amended. For a label volume \<open>v\<close> used as truth and as prediction and a
  class index \<open>i\<close> below \<open>classes\<close> that occurs in \<open>v\<close>, \<^verbatim>\<open>calc_DSC\<close> and
  \<^verbatim>\<open>calc_Sensitivity\<close> return 1.0 at index \<open>i\<close>; \<^verbatim>\<open>calc_Specificity\<close> returns 1.0 at
  index \<open>i\<close> when some voxel of \<open>v\<close> carries another label than \<open>i\<close>.
\<close>

theorem identical_volumes_scores:
  assumes "0 \<le> i" "i < classes" "i \<in> set (data v)"
  shows "\<exists>ds ss sp.
     calc_DSC v v classes = Inr ds \<and> calc_Sensitivity v v classes = Inr ss \<and>
     calc_Specificity v v classes = Inr sp \<and>
     ds ! nat i = Finite 1 \<and> ss ! nat i = Finite 1 \<and>
     ((\<exists>l \<in> set (data v). l \<noteq> i) \<longrightarrow> sp ! nat i = Finite 1)"
proof -
  have n: "nat i < length (py_range classes)" using assms by (simp add: py_range_length)
  have pos: "0 < count_label v i" using assms by (simp add: count_label_pos)
  have d: "np_true_divide (2 * count_label v i) (count_label v i + count_label v i) = Finite 1"
    using np_true_divide_self [of "2 * count_label v i"] pos by simp
  have s: "np_true_divide (count_label v i) (count_label v i) = Finite 1"
    using np_true_divide_self pos by simp
  have p: "(\<exists>l \<in> set (data v). l \<noteq> i) \<longrightarrow>
      np_true_divide (count_other v i) (count_other v i) = Finite 1"
    using np_true_divide_self [of "count_other v i"] count_other_pos [of _ v i] by fastforce
  show ?thesis
    using n d s p assms
    by (simp add: calc_DSC_eq calc_Sensitivity_eq calc_Specificity_eq py_range_nth
        count_both_same count_neither_same)
qed

theorem identical_volumes_scores_witness:
  "\<exists>ds ss sp.
     calc_DSC \<lparr>shape = [1, 1, 2], data = [0, 1]\<rparr> \<lparr>shape = [1, 1, 2], data = [0, 1]\<rparr> 2 = Inr ds \<and>
     calc_Sensitivity \<lparr>shape = [1, 1, 2], data = [0, 1]\<rparr> \<lparr>shape = [1, 1, 2], data = [0, 1]\<rparr> 2
       = Inr ss \<and>
     calc_Specificity \<lparr>shape = [1, 1, 2], data = [0, 1]\<rparr> \<lparr>shape = [1, 1, 2], data = [0, 1]\<rparr> 2
       = Inr sp \<and>
     ds ! 1 = Finite 1 \<and> ss ! 1 = Finite 1 \<and> sp ! 1 = Finite 1"
  using identical_volumes_scores [of 1 2 "\<lparr>shape = [1, 1, 2], data = [0, 1]\<rparr>"]
  by simp

text \<open>
  Claim C4 as stated fails: in a volume of one background voxel class 0 is present, and
  the specificity of class 0 is \<open>0 / 0\<close>, not 1.0.
\<close>

theorem identical_volumes_specificity_counterexample:
  "0 \<in> set (data \<lparr>shape = [1, 1, 1], data = [0::int]\<rparr>) \<and>
   calc_Specificity \<lparr>shape = [1, 1, 1], data = [0]\<rparr> \<lparr>shape = [1, 1, 1], data = [0]\<rparr> 1
     = Inr [NaN]"
  by code_simp

text \<open>
  Claim C5. The claim: when no label occurs in both volumes, every element of
  \<^verbatim>\<open>calc_DSC\<close> is 0.0. The code returns NaN for a class that occurs in neither volume:
  for the truth \<open>[0]\<close>, the prediction \<open>[1]\<close> and three classes the result is
  \<open>[0.0, 0.0, nan]\<close>.
\<close>

theorem calc_DSC_disjoint_labels:
  "set (data \<lparr>shape = [1, 1, 1], data = [0::int]\<rparr>)
     \<inter> set (data \<lparr>shape = [1, 1, 1], data = [1::int]\<rparr>) = {} \<and>
   calc_DSC \<lparr>shape = [1, 1, 1], data = [0]\<rparr> \<lparr>shape = [1, 1, 1], data = [1]\<rparr> 3
     = Inr [Finite 0, Finite 0, NaN]"
  by code_simp

text \<open>
  Claim C6. The claim: each of the three functions returns \<open>classes\<close> numbers from 0 to
  1. The lengths are right, the numbers are not: for the truth \<open>[0, 1]\<close>, the prediction
  \<open>[0, 0]\<close> and the script's four classes, the classes 2 and 3 get NaN from
  \<^verbatim>\<open>calc_DSC\<close> and from \<^verbatim>\<open>calc_Sensitivity\<close>.
\<close>

theorem scores_with_nan:
  "calc_DSC \<lparr>shape = [1, 1, 2], data = [0, 1]\<rparr> \<lparr>shape = [1, 1, 2], data = [0, 0]\<rparr> 4
     = Inr [Finite (round53 (2 / 3)), Finite 0, NaN, NaN] \<and>
   calc_Sensitivity \<lparr>shape = [1, 1, 2], data = [0, 1]\<rparr> \<lparr>shape = [1, 1, 2], data = [0, 0]\<rparr> 4
     = Inr [Finite 1, Finite 0, NaN, NaN] \<and>
   calc_Specificity \<lparr>shape = [1, 1, 2], data = [0, 1]\<rparr> \<lparr>shape = [1, 1, 2], data = [0, 0]\<rparr> 4
     = Inr [Finite 0, Finite 1, Finite 1, Finite 1] \<and>
   \<not> in_unit_interval NaN"
  by code_simp

section \<open>Properties of the overlay\<close>

subsection \<open>More on rounding\<close>

lemma binade_unique:
  assumes "b = 2 powi k" "b \<le> y" "y < 2 * b"
  shows "binade y = b"
proof -
  have bpos: "0 < b" using assms(1) by simp
  then have ypos: "0 < y" using assms(2) by linarith
  obtain l :: int where l: "binade y = 2 powi l" using binade_power by blast
  have bd: "binade y \<le> y" "y < 2 * binade y" using binade_bounds ypos by simp_all
  have "(2::real) powi l < 2 powi (k + 1)"
    using bd(1) assms l by (simp add: power_int_add)
  then have 1: "l < k + 1" by (rule powi_less_imp)
  have "(2::real) powi k < 2 powi (l + 1)"
    using bd(2) assms l by (simp add: power_int_add)
  then have 2: "k < l + 1" by (rule powi_less_imp)
  from 1 2 have "k = l" by simp
  then show ?thesis using l assms(1) by simp
qed

lemma round53_unfold:
  "x \<noteq> 0 \<Longrightarrow> round53 x = of_int (rint (x / (binade \<bar>x\<bar> / 2 ^ 52))) * (binade \<bar>x\<bar> / 2 ^ 52)"
  by (simp add: round53_def Let_def)

lemma round53_idem_pos:
  assumes "0 < x"
  shows "round53 (round53 x) = round53 x"
proof -
  define q where "q = binade x / 2 ^ 52"
  define m where "m = rint (x / q)"
  define F where "F = round53 x"
  have q: "0 < q" using binade_pos by (simp add: q_def)
  have f: "F = of_int m * q"
    using assms round53_unfold [of x] by (simp add: q_def m_def F_def)
  have fpos: "0 < F" unfolding F_def using assms by (rule round53_pos)
  have bnd: "binade x \<le> F" "F \<le> 2 * binade x"
    using round53_pos_bounds [OF assms] by (simp_all add: F_def)
  obtain k :: int where k: "binade x = 2 powi k" using binade_power by blast
  have unf: "round53 F = of_int (rint (F / (binade F / 2 ^ 52))) * (binade F / 2 ^ 52)"
    using round53_unfold [of F] fpos by simp
  have "round53 F = F"
  proof (cases "F = 2 * binade x")
    case True
    then have "F = 2 powi (k + 1)" using k by (simp add: power_int_add)
    then have "binade F = F"
      using fpos binade_unique [of F "k + 1" F] by simp
    moreover have "F / (F / 2 ^ 52) = of_int (2 ^ 52)" using fpos by simp
    ultimately have "round53 F = of_int (rint (of_int (2 ^ 52))) * (F / 2 ^ 52)"
      using unf by simp
    then show ?thesis by (simp only: rint_of_int) simp
  next
    case False
    then have "F < 2 * binade x" using bnd by simp
    then have "binade F = binade x"
      using bnd k binade_unique [of "binade x" k F] by simp
    then have "round53 F = of_int (rint (F / q)) * q"
      using unf by (simp only: q_def)
    moreover have "F / q = of_int m" using f q by simp
    ultimately have "round53 F = of_int (rint (of_int m)) * q"
      by simp
    then show ?thesis using f by (simp only: rint_of_int)
  qed
  then show ?thesis by (simp add: F_def)
qed

lemma round53_idem: "round53 (round53 x) = round53 x"
proof -
  consider "0 < x" | "x = 0" | "x < 0" by linarith
  then show ?thesis
  proof cases
    case 1 then show ?thesis by (rule round53_idem_pos)
  next
    case 2 then show ?thesis by (simp add: round53_zero)
  next
    case 3
    then have "round53 (round53 (- x)) = round53 (- x)" by (intro round53_idem_pos) simp
    then show ?thesis by (simp add: round53_minus)
  qed
qed

lemma round53_nonneg: "0 \<le> x \<Longrightarrow> 0 \<le> round53 x"
  using round53_mono [of 0 x] by (simp add: round53_zero)

lemma rint_range: "0 \<le> x \<Longrightarrow> x \<le> 255 \<Longrightarrow> 0 \<le> rint x \<and> rint x \<le> 255"
  using rint_mono [of 0 x] rint_mono [of x 255] rint_of_int [of 0] rint_of_int [of 255]
  by simp

lemma astype_uint8_rint:
  assumes "0 \<le> rint x" "rint x \<le> 255"
  shows "astype_uint8 u (np_around (Finite x)) = word_of_int (rint x)"
    and "unat (astype_uint8 u (np_around (Finite x))) = nat (rint x)"
proof -
  have "real_of_int (rint x) < 256" using assms by linarith
  then show a: "astype_uint8 u (np_around (Finite x)) = word_of_int (rint x)"
    using assms by (simp add: astype_uint8_def)
  have "uint (word_of_int (rint x) :: 8 word) = rint x"
    using assms by (simp add: uint_word_of_int)
  then show "unat (astype_uint8 u (np_around (Finite x))) = nat (rint x)"
    unfolding a by (simp add: unat_eq_nat_uint)
qed

lemma alpha_eval: "alpha = 5404319552844595 / 18014398509481984"
  by (simp add: alpha_def round53_def binade.simps rint_def Let_def)

lemma one_minus_alpha_eval: "round53 (1 - alpha) = 3152519739159347 / 4503599627370496"
  by (simp add: alpha_eval round53_def binade.simps rint_def Let_def)

lemma alpha_255: "round53 (alpha * 255) = 153 / 2"
  by (simp add: alpha_eval round53_def binade.simps rint_def Let_def)

lemma one_minus_alpha_255: "round53 (round53 (1 - alpha) * 255) = 357 / 2"
  unfolding one_minus_alpha_eval by (simp add: round53_def binade.simps rint_def Let_def)

lemma blend_sum_range:
  assumes "0 \<le> c" "c \<le> 255"
  shows "0 \<le> round53 (round53 (alpha * of_int c) + round53 (round53 (1 - alpha) * of_nat (unat (g :: 8 word))))"
    and "round53 (round53 (alpha * of_int c) + round53 (round53 (1 - alpha) * of_nat (unat g))) \<le> 255"
proof -
  have "unat g < 2 ^ 8" using unsigned_less [of g, where ?'a = nat] by simp
  then have "unat g \<le> 255" by simp
  then have g: "real (unat g) \<le> 255" by linarith
  have a0: "0 \<le> alpha * of_int c" using assms by (simp add: alpha_eval)
  have a1: "alpha * of_int c \<le> alpha * 255" using assms by (simp add: alpha_eval)
  have b0: "0 \<le> round53 (1 - alpha) * of_nat (unat g)"
    by (simp add: one_minus_alpha_eval del: of_nat_unat)
  have b1: "round53 (1 - alpha) * of_nat (unat g) \<le> round53 (1 - alpha) * 255"
    using g by (simp add: one_minus_alpha_eval del: of_nat_unat)
  have A: "0 \<le> round53 (alpha * of_int c)" "round53 (alpha * of_int c) \<le> 153 / 2"
    using round53_nonneg [OF a0] round53_mono [OF a1] by (simp_all add: alpha_255)
  have B: "0 \<le> round53 (round53 (1 - alpha) * of_nat (unat g))"
    "round53 (round53 (1 - alpha) * of_nat (unat g)) \<le> 357 / 2"
    using round53_nonneg [OF b0] round53_mono [OF b1] by (simp_all add: one_minus_alpha_255)
  show "0 \<le> round53 (round53 (alpha * of_int c) + round53 (round53 (1 - alpha) * of_nat (unat g)))"
    using A B by (intro round53_nonneg) simp
  have "round53 (alpha * of_int c) + round53 (round53 (1 - alpha) * of_nat (unat g)) \<le> 255"
    using A B by simp
  then show "round53 (round53 (alpha * of_int c) + round53 (round53 (1 - alpha) * of_nat (unat g))) \<le> 255"
    using round53_mono [of _ 255] by (simp add: round53_255)
qed

lemma blend_eq:
  assumes "0 \<le> c" "c \<le> 255"
  shows "int (unat (blend u c g)) =
    rint (round53 (round53 (alpha * of_int c) + round53 (round53 (1 - alpha) * of_nat (unat g))))"
proof -
  let ?s = "round53 (round53 (alpha * of_int c) + round53 (round53 (1 - alpha) * of_nat (unat g)))"
  have r: "0 \<le> rint ?s \<and> rint ?s \<le> 255"
    using blend_sum_range [OF assms, of g] by (intro rint_range) simp_all
  then show ?thesis
    using astype_uint8_rint(2) [of ?s u] by (simp add: blend_def)
qed

lemma blend_zero_colour:
  "int (unat (blend u 0 g)) = rint (round53 (round53 (1 - alpha) * of_nat (unat g)))"
  using blend_eq [of 0 u g] by (simp add: round53_zero round53_idem)

subsection \<open>Accuracy of the blend\<close>

lemma round53_error: "\<bar>round53 x - x\<bar> \<le> \<bar>x\<bar> / 2 ^ 53"
proof (cases "x = 0")
  case True
  then show ?thesis by (simp add: round53_zero)
next
  case False
  define q where "q = binade \<bar>x\<bar> / 2 ^ 52"
  have q: "0 < q" using binade_pos by (simp add: q_def)
  have b: "binade \<bar>x\<bar> \<le> \<bar>x\<bar>" using binade_bounds [of "\<bar>x\<bar>"] False by simp
  have f: "round53 x = of_int (rint (x / q)) * q"
    using round53_unfold [OF False] by (simp add: q_def)
  have "round53 x - x = (of_int (rint (x / q)) - x / q) * q"
    using q by (simp add: f algebra_simps)
  then have "\<bar>round53 x - x\<bar> = \<bar>of_int (rint (x / q)) - x / q\<bar> * q"
    using q by (simp add: abs_mult)
  also have "\<dots> \<le> 1 / 2 * q"
    using rint_near [of "x / q"] q by (intro mult_right_mono) simp_all
  also have "\<dots> = binade \<bar>x\<bar> / 2 ^ 53" by (simp add: q_def)
  also have "\<dots> \<le> \<bar>x\<bar> / 2 ^ 53" using b by (simp add: divide_right_mono)
  finally show ?thesis .
qed

lemma nearest_tenth:
  fixes n k :: int and y :: real
  assumes "\<bar>real_of_int n - y\<bar> \<le> 1 / 2" "\<bar>y - real_of_int k / 10\<bar> \<le> 1 / 100"
  shows "\<bar>real_of_int n - real_of_int k / 10\<bar> \<le> 1 / 2"
proof -
  have a: "real_of_int n - y \<le> 1 / 2" "- (1 / 2) \<le> real_of_int n - y"
    and b: "y - real_of_int k / 10 \<le> 1 / 100" "- (1 / 100) \<le> y - real_of_int k / 10"
    using assms by linarith+
  have "real_of_int (10 * n - k) < real_of_int 6" "real_of_int (- 6) < real_of_int (10 * n - k)"
    using a b by simp_all
  then have "10 * n - k < 6" "- 6 < 10 * n - k"
    by (simp_all only: of_int_less_iff)
  then have "10 * n - k \<le> 5" "- 5 \<le> 10 * n - k" by simp_all
  then have "real_of_int (10 * n - k) \<le> real_of_int 5" "real_of_int (- 5) \<le> real_of_int (10 * n - k)"
    by (simp_all only: of_int_le_iff)
  then have "10 * real_of_int n - real_of_int k \<le> 5" "- 5 \<le> 10 * real_of_int n - real_of_int k"
    by simp_all
  then show ?thesis by linarith
qed

lemma blend_near:
  assumes "c = 0 \<or> c = 255"
  shows "\<bar>real_of_int (int (unat (blend u c g))) - real_of_int (3 * c + 7 * int (unat g)) / 10\<bar> \<le> 1 / 2"
proof -
  define G where "G = real (unat g)"
  define A where "A = round53 (alpha * of_int c)"
  define B where "B = round53 (round53 (1 - alpha) * G)"
  define Y where "Y = round53 (A + B)"
  have "unat g < 2 ^ 8" using unsigned_less [of g, where ?'a = nat] by simp
  then have "unat g \<le> 255" by simp
  then have G: "0 \<le> G" "G \<le> 255" unfolding G_def by linarith+
  have c: "0 \<le> c" "c \<le> 255" using assms by auto
  have A: "A = 3 * real_of_int c / 10"
    using assms unfolding A_def by (auto simp: round53_zero alpha_255)
  have x: "\<bar>round53 (1 - alpha) * G - 7 * G / 10\<bar> \<le> 255 / 2 ^ 52"
    using G by (simp add: one_minus_alpha_eval abs_le_iff)
  have x0: "0 \<le> round53 (1 - alpha) * G" "round53 (1 - alpha) * G \<le> 255"
    using G by (simp_all add: one_minus_alpha_eval)
  have "\<bar>B - round53 (1 - alpha) * G\<bar> \<le> \<bar>round53 (1 - alpha) * G\<bar> / 2 ^ 53"
    unfolding B_def by (rule round53_error)
  also have "\<dots> \<le> 255 / 2 ^ 53" using x0 by (simp add: divide_right_mono)
  finally have "\<bar>B - 7 * G / 10\<bar> \<le> 255 / 2 ^ 52 + 255 / 2 ^ 53" using x by linarith
  moreover have "(255::real) / 2 ^ 52 + 255 / 2 ^ 53 \<le> 1 / 1000" by simp
  ultimately have b: "B - 7 * G / 10 \<le> 1 / 1000" "- (1 / 1000) \<le> B - 7 * G / 10"
    by linarith+
  have c': "0 \<le> real_of_int c" "real_of_int c \<le> 255" using c by simp_all
  have B0: "0 \<le> B" unfolding B_def using x0 by (intro round53_nonneg)
  have s: "0 \<le> A + B" "A + B \<le> 300" using b B0 G A c' by linarith+
  have "\<bar>Y - (A + B)\<bar> \<le> \<bar>A + B\<bar> / 2 ^ 53" unfolding Y_def by (rule round53_error)
  also have "\<dots> \<le> 300 / 2 ^ 53" using s by (simp add: divide_right_mono)
  also have "\<dots> \<le> 1 / 1000" by simp
  finally have "\<bar>Y - (A + 7 * G / 10)\<bar> \<le> 1 / 100" using b by linarith
  moreover have "real_of_int (3 * c + 7 * int (unat g)) / 10 = A + 7 * G / 10"
    by (simp add: A G_def add_divide_distrib del: of_nat_unat)
  ultimately have y: "\<bar>Y - real_of_int (3 * c + 7 * int (unat g)) / 10\<bar> \<le> 1 / 100"
    by (simp only:)
  have "int (unat (blend u c g)) = rint Y"
    using blend_eq [OF c, of u g] by (simp add: Y_def A_def B_def G_def)
  then show ?thesis
    using nearest_tenth [OF rint_near [of Y] y] by simp
qed

lemma blend_zero_darker:
  "unat (blend u 0 g) \<le> unat g" "2 \<le> unat g \<Longrightarrow> unat (blend u 0 g) < unat g"
proof -
  have "\<bar>real_of_int (int (unat (blend u 0 g))) - real_of_int (3 * 0 + 7 * int (unat g)) / 10\<bar> \<le> 1 / 2"
    by (rule blend_near) simp
  then have "real_of_int (int (unat (blend u 0 g))) - real_of_int (3 * 0 + 7 * int (unat g)) / 10 \<le> 1 / 2"
    by linarith
  then have "real_of_int (10 * int (unat (blend u 0 g))) \<le> real_of_int (7 * int (unat g) + 5)"
    by (simp del: of_nat_unat)
  then have "10 * int (unat (blend u 0 g)) \<le> 7 * int (unat g) + 5"
    by (simp only: of_int_le_iff)
  then show "unat (blend u 0 g) \<le> unat g" "2 \<le> unat g \<Longrightarrow> unat (blend u 0 g) < unat g"
    by linarith+
qed

subsection \<open>Subnormal numbers and overflow\<close>

lemma round53_pow2: "round53 (2 powi k) = 2 powi k"
proof -
  have pos: "(0::real) < 2 powi k" by simp
  have b: "binade (2 powi k) = 2 powi k"
    using pos by (intro binade_unique [of _ k]) simp_all
  have "round53 (2 powi k) = of_int (rint (2 powi k / (2 powi k / 2 ^ 52))) * (2 powi k / 2 ^ 52)"
    using round53_unfold [of "2 powi k"] b by simp
  moreover have "(2::real) powi k / (2 powi k / 2 ^ 52) = of_int (2 ^ 52)" by simp
  ultimately have "round53 (2 powi k) = of_int (rint (of_int (2 ^ 52))) * (2 powi k / 2 ^ 52)"
    by simp
  then show ?thesis by (simp only: rint_of_int) simp
qed

lemma min_normal_powi: "(1::real) / 2 ^ 1022 = 2 powi (- 1022)"
  by (simp add: power_int_minus field_simps)

lemma round53_min_normal: "round53 (1 / 2 ^ 1022) = 1 / 2 ^ 1022"
  unfolding min_normal_powi by (rule round53_pow2)

lemma round53_2_1023: "round53 (2 ^ 1023) = 2 ^ 1023"
  using round53_pow2 [of 1023] by simp

lemma round64_zero: "round64 0 = 0"
  by (simp add: round64_def rint_def)

lemma round64_minus: "round64 (- x) = - round64 x"
  by (simp add: round64_def rint_minus round53_minus)

lemma round64_normal: "1 / 2 ^ 1022 \<le> \<bar>x\<bar> \<Longrightarrow> round64 x = round53 x"
  by (simp add: round64_def)

lemma round64_small:
  assumes "0 \<le> x" "x < 1 / 2 ^ 1022"
  shows "round64 x = of_int (rint (x * 2 ^ 1074)) / 2 ^ 1074"
    and "0 \<le> round64 x" and "round64 x \<le> 1 / 2 ^ 1022"
proof -
  show r: "round64 x = of_int (rint (x * 2 ^ 1074)) / 2 ^ 1074"
    using assms by (simp add: round64_def)
  have "0 \<le> x * 2 ^ 1074" using assms by simp
  then have lo: "0 \<le> rint (x * 2 ^ 1074)" using rint_mono [of 0] rint_of_int [of 0] by simp
  have "x * 2 ^ 1074 \<le> 1 / 2 ^ 1022 * 2 ^ 1074" using assms by (intro mult_right_mono) simp_all
  also have "(1::real) / 2 ^ 1022 * 2 ^ 1074 = of_int (2 ^ 52)" by simp
  finally have "rint (x * 2 ^ 1074) \<le> rint (of_int (2 ^ 52))" by (rule rint_mono)
  then have hi: "rint (x * 2 ^ 1074) \<le> 2 ^ 52" by (simp only: rint_of_int)
  show "0 \<le> round64 x" using lo by (simp add: r)
  have "real_of_int (rint (x * 2 ^ 1074)) \<le> real_of_int (2 ^ 52)"
    using hi by (simp only: of_int_le_iff)
  then have "real_of_int (rint (x * 2 ^ 1074)) / 2 ^ 1074 \<le> real_of_int (2 ^ 52) / 2 ^ 1074"
    by (intro divide_right_mono) simp_all
  also have "real_of_int (2 ^ 52) / 2 ^ 1074 = 1 / 2 ^ 1022" by simp
  finally show "round64 x \<le> 1 / 2 ^ 1022" by (simp only: r)
qed

lemma round64_nonneg: "0 \<le> x \<Longrightarrow> 0 \<le> round64 x"
  using round64_small(2) [of x] round53_nonneg [of x]
  by (cases "x < 1 / 2 ^ 1022") (simp_all add: round64_normal)

lemma round64_mono_nonneg:
  assumes "0 \<le> x" "x \<le> y"
  shows "round64 x \<le> round64 y"
proof -
  consider "y < 1 / 2 ^ 1022" | "x < 1 / 2 ^ 1022" "1 / 2 ^ 1022 \<le> y" | "1 / 2 ^ 1022 \<le> x"
    by linarith
  then show ?thesis
  proof cases
    case 1
    then have x: "x < 1 / 2 ^ 1022" and y0: "0 \<le> y" using assms by linarith+
    have "x * 2 ^ 1074 \<le> y * 2 ^ 1074" using assms by simp
    then have "rint (x * 2 ^ 1074) \<le> rint (y * 2 ^ 1074)" by (rule rint_mono)
    then have "real_of_int (rint (x * 2 ^ 1074)) / 2 ^ 1074 \<le> real_of_int (rint (y * 2 ^ 1074)) / 2 ^ 1074"
      by (intro divide_right_mono) simp_all
    then show ?thesis
      by (simp only: round64_small(1) [OF assms(1) x] round64_small(1) [OF y0 1])
  next
    case 2
    have "round64 x \<le> 1 / 2 ^ 1022" using round64_small(3) [OF assms(1) 2(1)] .
    also have "\<dots> = round53 (1 / 2 ^ 1022)" by (simp only: round53_min_normal)
    also have "\<dots> \<le> round53 y" using 2(2) by (rule round53_mono)
    also have "\<dots> = round64 y" using 2(2) assms by (simp add: round64_normal)
    finally show ?thesis .
  next
    case 3
    then have "1 / 2 ^ 1022 \<le> y" using assms by linarith
    then show ?thesis
      using 3 assms round53_mono [OF assms(2)] by (simp add: round64_normal)
  qed
qed

lemma round64_mono: assumes "x \<le> y" shows "round64 x \<le> round64 y"
proof -
  consider "0 \<le> x" | "x < 0" "0 \<le> y" | "y < 0" using assms by linarith
  then show ?thesis
  proof cases
    case 1 then show ?thesis using assms by (rule round64_mono_nonneg)
  next
    case 2
    have "0 \<le> round64 (- x)" using 2 by (intro round64_nonneg) simp
    then have "round64 x \<le> 0" by (simp add: round64_minus)
    also have "0 \<le> round64 y" using 2 by (intro round64_nonneg)
    finally show ?thesis .
  next
    case 3
    then have "round64 (- y) \<le> round64 (- x)" using assms by (intro round64_mono_nonneg) simp_all
    then show ?thesis by (simp add: round64_minus)
  qed
qed

lemma round64_pos:
  assumes "1 / 2 ^ 1074 \<le> x"
  shows "0 < round64 x"
proof (cases "x < 1 / 2 ^ 1022")
  case True
  have x0: "0 \<le> x" using assms by (simp add: order_trans [of 0 "1 / 2 ^ 1074"])
  have "1 / 2 ^ 1074 * 2 ^ 1074 \<le> x * 2 ^ 1074" using assms by (intro mult_right_mono) simp_all
  then have "of_int 1 \<le> x * 2 ^ 1074" by simp
  then have "rint (of_int 1) \<le> rint (x * 2 ^ 1074)" by (rule rint_mono)
  then have "1 \<le> rint (x * 2 ^ 1074)" by (simp only: rint_of_int)
  then have "0 < real_of_int (rint (x * 2 ^ 1074))" by simp
  then show ?thesis by (simp add: round64_small(1) [OF x0 True])
next
  case False
  then have n: "1 / 2 ^ 1022 \<le> x" by simp
  then have "0 < x" using less_le_trans [of 0 "1 / 2 ^ 1022" x] by simp
  then show ?thesis using n round53_pos [of x] by (simp add: round64_normal)
qed

lemma round64_one: "round64 1 = 1"
  by (simp add: round64_def round53_one)

lemma round64_255: "round64 255 = 255"
  by (simp add: round64_def round53_255)

lemma round64_2_1023: "round64 (2 ^ 1023) = 2 ^ 1023"
proof -
  have "(1::real) / 2 ^ 1022 \<le> \<bar>2 ^ 1023\<bar>" by simp
  then have "round64 (2 ^ 1023) = round53 (2 ^ 1023)" by (rule round64_normal)
  then show ?thesis by (simp only: round53_2_1023)
qed

lemma ieee_Finite: "\<bar>round64 x\<bar> < 2 ^ 1024 \<Longrightarrow> ieee x = Finite (round64 x)"
  by (simp add: ieee_def)

lemma ieee_zero: "ieee 0 = Finite 0"
  by (simp add: ieee_def round64_zero)

lemma ieee_bounded:
  assumes "0 \<le> x" "x \<le> b" "round64 b = b" "b < 2 ^ 1024"
  shows "ieee x = Finite (round64 x)" and "0 \<le> round64 x" and "round64 x \<le> b"
proof -
  show lo: "0 \<le> round64 x" using assms(1) by (rule round64_nonneg)
  show hi: "round64 x \<le> b" using round64_mono [OF assms(2)] assms(3) by simp
  show "ieee x = Finite (round64 x)" using lo hi assms(4) by (intro ieee_Finite) simp
qed

subsection \<open>Grey values and the layout of the result\<close>

lemma np_min_Min: "data vol \<noteq> [] \<Longrightarrow> np_min vol = Inr (Min (set (data vol)))"
  using Min.set_eq_fold [of "hd (data vol)" "tl (data vol)"]
  by (cases "data vol") (simp_all add: np_min_def)

lemma np_max_Max: "data vol \<noteq> [] \<Longrightarrow> np_max vol = Inr (Max (set (data vol)))"
  using Max.set_eq_fold [of "hd (data vol)" "tl (data vol)"]
  by (cases "data vol") (simp_all add: np_max_def)

lemma np_min_max_bounds:
  assumes "np_min vol = Inr mn" "np_max vol = Inr mx" "v \<in> set (data vol)"
  shows "mn \<le> v \<and> v \<le> mx"
proof -
  have ne: "data vol \<noteq> []" using assms(3) by auto
  then have "mn = Min (set (data vol))" "mx = Max (set (data vol))"
    using assms np_min_Min np_max_Max by simp_all
  then show ?thesis using assms(3) by simp
qed

lemma np_min_in:
  assumes "np_min vol = Inr mn" shows "mn \<in> set (data vol)"
proof -
  have ne: "data vol \<noteq> []" using assms by (auto simp: np_min_def)
  then have "mn = Min (set (data vol))" using assms np_min_Min by simp
  then show ?thesis using ne Min_in [of "set (data vol)"] by simp
qed

lemma np_max_in:
  assumes "np_max vol = Inr mx" shows "mx \<in> set (data vol)"
proof -
  have ne: "data vol \<noteq> []" using assms by (auto simp: np_max_def)
  then have "mx = Max (set (data vol))" using assms np_max_Max by simp
  then show ?thesis using ne Max_in [of "set (data vol)"] by simp
qed

lemma vol_scaled_eq:
  assumes "np_min vol = Inr mn" "np_max vol = Inr mx"
  shows "vol_scaled vol = Inr \<lparr>shape = shape vol,
    data = map (\<lambda>v. np_divide (ieee (v - mn)) (ieee (mx - mn))) (data vol)\<rparr>"
  using assms by (simp add: vol_scaled_def)

lemma vol_greyscale_eq:
  assumes "np_min vol = Inr mn" "np_max vol = Inr mx"
  shows "vol_greyscale u vol = Inr \<lparr>shape = shape vol,
    data = map (\<lambda>v. astype_uint8 u (np_around (times_255
                   (np_divide (ieee (v - mn)) (ieee (mx - mn)))))) (data vol)\<rparr>"
  using assms by (simp add: vol_greyscale_def vol_scaled_eq comp_def)

lemma scaled_constant:
  assumes "mn = mx" "mn \<le> v" "v \<le> mx"
  shows "np_divide (ieee (v - mn)) (ieee (mx - mn)) = NaN"
  using assms by (simp add: ieee_zero)

lemma grey_of_scaled:
  assumes "0 \<le> s" "s \<le> 1"
  shows "int (unat (astype_uint8 u (np_around (times_255 (Finite s))))) = rint (round64 (s * 255))"
    and "0 \<le> rint (round64 (s * 255))" and "rint (round64 (s * 255)) \<le> 255"
proof -
  have x: "0 \<le> s * 255" "s * 255 \<le> 255" using assms by simp_all
  have b: "(255::real) < 2 ^ 1024" by simp
  have t: "times_255 (Finite s) = Finite (round64 (s * 255))"
    using ieee_bounded(1) [OF x round64_255 b] by simp
  have "0 \<le> round64 (s * 255)" "round64 (s * 255) \<le> 255"
    using ieee_bounded(2,3) [OF x round64_255 b] by simp_all
  then have r: "0 \<le> rint (round64 (s * 255)) \<and> rint (round64 (s * 255)) \<le> 255"
    by (rule rint_range)
  then show "0 \<le> rint (round64 (s * 255))" "rint (round64 (s * 255)) \<le> 255" by simp_all
  show "int (unat (astype_uint8 u (np_around (times_255 (Finite s))))) = rint (round64 (s * 255))"
    unfolding t using r astype_uint8_rint(2) [of "round64 (s * 255)" u] by simp
qed

text \<open>
  When the range of the volume is a positive double that does not overflow, every scaled
  value is a number from 0 to 1.
\<close>

lemma scaled_range:
  assumes "mn \<le> v" "v \<le> mx" "ieee (mx - mn) = Finite d" "0 < d"
  shows "np_divide (ieee (v - mn)) (ieee (mx - mn)) = Finite (round64 (round64 (v - mn) / d))"
    and "0 \<le> round64 (round64 (v - mn) / d)"
    and "round64 (round64 (v - mn) / d) \<le> 1"
    and "d = round64 (mx - mn)"
proof -
  show dd: "d = round64 (mx - mn)"
    using assms(3) by (simp add: ieee_def split: if_splits)
  have db: "\<bar>round64 (mx - mn)\<bar> < 2 ^ 1024"
    using assms(3) by (simp add: ieee_def split: if_splits)
  have a0: "0 \<le> v - mn" and ad: "v - mn \<le> mx - mn" using assms by simp_all
  have ra: "0 \<le> round64 (v - mn)" using a0 by (rule round64_nonneg)
  have rad: "round64 (v - mn) \<le> d" unfolding dd using ad by (rule round64_mono)
  have "\<bar>round64 (v - mn)\<bar> < 2 ^ 1024" using ra rad db dd by linarith
  then have a: "ieee (v - mn) = Finite (round64 (v - mn))" by (rule ieee_Finite)
  have q0: "0 \<le> round64 (v - mn) / d" using ra assms(4) by simp
  have q1: "round64 (v - mn) / d \<le> 1" using rad assms(4) by simp
  have one: "(1::real) < 2 ^ 1024" by simp
  have q: "ieee (round64 (v - mn) / d) = Finite (round64 (round64 (v - mn) / d))"
    using ieee_bounded(1) [OF q0 q1 round64_one one] .
  show "np_divide (ieee (v - mn)) (ieee (mx - mn)) = Finite (round64 (round64 (v - mn) / d))"
    using assms(4) by (simp add: a assms(3) q)
  show "0 \<le> round64 (round64 (v - mn) / d)"
    using ieee_bounded(2) [OF q0 q1 round64_one one] .
  show "round64 (round64 (v - mn) / d) \<le> 1"
    using ieee_bounded(3) [OF q0 q1 round64_one one] .
qed

lemma concat3_length: "length (concat (map (\<lambda>x. [x, x, x]) xs)) = 3 * length xs"
  by (induction xs) simp_all

lemma concat3_nth: "p < 3 * length xs \<Longrightarrow> concat (map (\<lambda>x. [x, x, x]) xs) ! p = xs ! (p div 3)"
proof (induction xs arbitrary: p)
  case Nil
  then show ?case by simp
next
  case (Cons x xs)
  show ?case
  proof (cases "p < 3")
    case True
    then have "p = 0 \<or> p = 1 \<or> p = 2" by linarith
    then show ?thesis by auto
  next
    case False
    then obtain q where q: "p = q + 3" using le_Suc_ex [of 3 p] by auto
    then have "q < 3 * length xs" using Cons.prems by simp
    then have ih: "concat (map (\<lambda>x. [x, x, x]) xs) ! q = xs ! (q div 3)" by (rule Cons.IH)
    have "concat (map (\<lambda>x. [x, x, x]) (x # xs)) ! p
        = ([x, x, x] @ concat (map (\<lambda>x. [x, x, x]) xs)) ! (length [x, x, x] + q)"
      using q by (simp add: add.commute)
    also have "\<dots> = concat (map (\<lambda>x. [x, x, x]) xs) ! q"
      by (rule nth_append_length_plus)
    also have "\<dots> = xs ! (q div 3)" by (rule ih)
    also have "\<dots> = (x # xs) ! Suc (q div 3)" by simp
    also have "Suc (q div 3) = p div 3" using q by simp
    finally show ?thesis .
  qed
qed

lemma mask_assign_length: "length (data (mask_assign m row a)) = length (data a)"
  by (simp add: mask_assign_def)

lemma mask_assign_nth:
  "p < length (data a) \<Longrightarrow>
   data (mask_assign m row a) ! p = (if data m ! (p div 3) then row ! (p mod 3) else data a ! p)"
  by (simp add: mask_assign_def)

lemma seg_rgb_nth:
  assumes "wf_array seg" "p < 3 * length (data seg)"
  shows "data (mask_assign (np_equal seg 3) [255, 0, 0]
           (mask_assign (np_equal seg 2) [0, 0, 255]
             (mask_assign (np_equal seg 1) [0, 0, 255] (np_zeros (shape seg @ [3]))))) ! p
         = label_colour (data seg ! (p div 3)) ! (p mod 3)"
proof -
  have len: "length (data (np_zeros (shape seg @ [3]))) = 3 * length (data seg)"
    using assms(1) by (simp add: np_zeros_def wf_array_def)
  have j: "p div 3 < length (data seg)" using assms(2) by simp
  have z: "data (np_zeros (shape seg @ [3])) ! p = 0"
    using assms len by (simp add: np_zeros_def)
  have e: "data (np_equal seg c) ! (p div 3) = (data seg ! (p div 3) = c)" for c
    using j by (simp add: np_equal_def)
  have k: "p mod 3 = 0 \<or> p mod 3 = 1 \<or> p mod 3 = 2" by linarith
  have "[0, 0, 0 :: int] ! (p mod 3) = 0" using k by auto
  then show ?thesis
    using assms(2) len z e
    by (simp add: mask_assign_nth mask_assign_length label_colour_def)
qed

lemma seg_rgb_length:
  assumes "wf_array seg"
  shows "length (data (mask_assign (np_equal seg 3) [255, 0, 0]
           (mask_assign (np_equal seg 2) [0, 0, 255]
             (mask_assign (np_equal seg 1) [0, 0, 255] (np_zeros (shape seg @ [3]))))))
         = 3 * length (data seg)"
  using assms by (simp add: mask_assign_length np_zeros_def wf_array_def)

lemma overlay_result:
  assumes "wf_array vol" "wf_array seg" "length (shape seg) = 3" "shape vol = shape seg"
    and "vol_greyscale u vol = Inr grey"
  shows "\<exists>out. overlay_segmentation u vol seg = Inr out \<and> shape out = shape seg @ [3] \<and>
      length (data out) = 3 * length (data seg) \<and> length (data grey) = length (data seg) \<and>
      (\<forall>p < 3 * length (data seg). data out ! p =
         (if 0 < data seg ! (p div 3)
          then blend u (label_colour (data seg ! (p div 3)) ! (p mod 3)) (data grey ! (p div 3))
          else data grey ! (p div 3)))"
proof -
  have n: "length (data vol) = length (data seg)"
    using assms by (simp add: wf_array_def)
  have lg: "length (data grey) = length (data seg)"
    using assms(5) n by (auto simp: vol_greyscale_def vol_scaled_def split: sum.splits)
  define seg_rgb where "seg_rgb = mask_assign (np_equal seg 3) [255, 0, 0]
           (mask_assign (np_equal seg 2) [0, 0, 255]
             (mask_assign (np_equal seg 1) [0, 0, 255] (np_zeros (shape seg @ [3]))))"
  define out where "out = np_where (np_stack3 (np_greater seg 0))
      \<lparr>shape = shape seg_rgb, data = map2 (blend u) (data seg_rgb) (data (np_stack3 grey))\<rparr>
      (np_stack3 grey)"
  have o: "overlay_segmentation u vol seg = Inr out"
    using assms by (simp add: overlay_segmentation_def Let_def out_def seg_rgb_def)
  have ls: "length (data seg_rgb) = 3 * length (data seg)"
    unfolding seg_rgb_def using assms(2) by (rule seg_rgb_length)
  have lv: "length (data (np_stack3 grey)) = 3 * length (data seg)"
    by (simp add: np_stack3_def concat3_length lg)
  have lgt: "length (data (np_greater seg 0)) = length (data seg)"
    by (simp add: np_greater_def)
  have lc: "length (data (np_stack3 (np_greater seg 0))) = 3 * length (data seg)"
    by (simp add: np_stack3_def concat3_length lgt)
  have sh: "shape out = shape seg @ [3]"
    by (simp add: out_def np_where_def np_stack3_def np_greater_def)
  have lo: "length (data out) = 3 * length (data seg)"
    using ls lv lc by (simp add: out_def np_where_def)
  have nth: "data out ! p =
         (if 0 < data seg ! (p div 3)
          then blend u (label_colour (data seg ! (p div 3)) ! (p mod 3)) (data grey ! (p div 3))
          else data grey ! (p div 3))" if p: "p < 3 * length (data seg)" for p
  proof -
    have j: "p div 3 < length (data seg)" using p by simp
    have "data (np_stack3 (np_greater seg 0)) ! p = data (np_greater seg 0) ! (p div 3)"
      using p lgt by (simp add: np_stack3_def concat3_nth)
    also have "\<dots> = (0 < data seg ! (p div 3))" using j by (simp add: np_greater_def)
    finally have c: "data (np_stack3 (np_greater seg 0)) ! p = (0 < data seg ! (p div 3))" .
    have v: "data (np_stack3 grey) ! p = data grey ! (p div 3)"
      using p lg by (simp add: np_stack3_def concat3_nth)
    have s: "data seg_rgb ! p = label_colour (data seg ! (p div 3)) ! (p mod 3)"
      unfolding seg_rgb_def using assms(2) p by (rule seg_rgb_nth)
    show ?thesis
      using p ls lv lc c v s by (simp add: out_def np_where_def)
  qed
  show ?thesis using o sh lo lg nth by blast
qed

lemma overlay_voxel:
  assumes "wf_array vol" "wf_array seg" "length (shape seg) = 3" "shape vol = shape seg"
    and "vol_greyscale u vol = Inr grey"
  shows "\<exists>out. overlay_segmentation u vol seg = Inr out \<and> shape out = shape seg @ [3] \<and>
      length (data out) = 3 * length (data seg) \<and> length (data grey) = length (data seg) \<and>
      (\<forall>j < length (data seg). voxel out j =
         (if 0 < data seg ! j
          then map (\<lambda>c. blend u c (data grey ! j)) (label_colour (data seg ! j))
          else [data grey ! j, data grey ! j, data grey ! j]))"
proof -
  obtain out where o: "overlay_segmentation u vol seg = Inr out" "shape out = shape seg @ [3]"
    "length (data out) = 3 * length (data seg)" "length (data grey) = length (data seg)"
    and nth: "\<And>p. p < 3 * length (data seg) \<Longrightarrow> data out ! p =
         (if 0 < data seg ! (p div 3)
          then blend u (label_colour (data seg ! (p div 3)) ! (p mod 3)) (data grey ! (p div 3))
          else data grey ! (p div 3))"
    using overlay_result [OF assms] by blast
  have "voxel out j =
         (if 0 < data seg ! j
          then map (\<lambda>c. blend u c (data grey ! j)) (label_colour (data seg ! j))
          else [data grey ! j, data grey ! j, data grey ! j])" if j: "j < length (data seg)" for j
  proof -
    have "3 * j < 3 * length (data seg)" "3 * j + 1 < 3 * length (data seg)"
      "3 * j + 2 < 3 * length (data seg)" using j by simp_all
    moreover have "(3 * j) div 3 = j" "(3 * j + 1) div 3 = j" "(3 * j + 2) div 3 = j"
      "(3 * j) mod 3 = 0" "(3 * j + 1) mod 3 = 1" "(3 * j + 2) mod 3 = 2" by presburger+
    ultimately show ?thesis
      by (simp add: voxel_def nth label_colour_def)
  qed
  then show ?thesis using o by blast
qed

lemma vol_greyscale_defined:
  assumes "data vol \<noteq> []"
  shows "\<exists>grey. vol_greyscale u vol = Inr grey"
  using assms np_min_Min [OF assms] np_max_Max [OF assms]
  by (simp add: vol_greyscale_eq)

lemma grey_pipeline:
  assumes "np_min vol = Inr mn" "np_max vol = Inr mx" "vol_greyscale u vol = Inr grey"
    and "j < length (data vol)"
  shows "data grey ! j = astype_uint8 u (np_around (times_255
           (np_divide (ieee (data vol ! j - mn)) (ieee (mx - mn)))))"
  using assms(3,4) vol_greyscale_eq [OF assms(1,2), of u] by auto

lemma grey_value:
  assumes "np_min vol = Inr mn" "np_max vol = Inr mx" "vol_greyscale u vol = Inr grey"
    and "j < length (data vol)" and "ieee (mx - mn) = Finite d" "0 < d"
  shows "int (unat (data grey ! j)) =
    rint (round64 (round64 (round64 (data vol ! j - mn) / d) * 255))"
proof -
  have mem: "data vol ! j \<in> set (data vol)" using assms(4) by simp
  have v: "mn \<le> data vol ! j" "data vol ! j \<le> mx"
    using np_min_max_bounds [OF assms(1,2) mem] by simp_all
  show ?thesis
    unfolding grey_pipeline [OF assms(1-4)] scaled_range(1) [OF v assms(5,6)]
    using grey_of_scaled(1) [OF scaled_range(2,3) [OF v assms(5,6)]] .
qed

lemma blend_zero_low:
  assumes "unat g \<le> 1"
  shows "blend u 0 g = g"
proof -
  have "\<bar>real_of_int (int (unat (blend u 0 g))) - real_of_int (3 * 0 + 7 * int (unat g)) / 10\<bar> \<le> 1 / 2"
    by (rule blend_near) simp
  then have "real_of_int (int (unat (blend u 0 g))) - real_of_int (3 * 0 + 7 * int (unat g)) / 10 \<le> 1 / 2"
    "- (1 / 2) \<le> real_of_int (int (unat (blend u 0 g))) - real_of_int (3 * 0 + 7 * int (unat g)) / 10"
    by linarith+
  then have "real_of_int (10 * int (unat (blend u 0 g))) \<le> real_of_int (7 * int (unat g) + 5)"
    "real_of_int (7 * int (unat g) - 5) \<le> real_of_int (10 * int (unat (blend u 0 g)))"
    by (simp_all del: of_nat_unat)
  then have "10 * int (unat (blend u 0 g)) \<le> 7 * int (unat g) + 5"
    "7 * int (unat g) - 5 \<le> 10 * int (unat (blend u 0 g))"
    by (simp_all only: of_int_le_iff)
  then have "unat (blend u 0 g) = unat g" using assms by linarith
  then show ?thesis by (simp add: word_unat_eq_iff)
qed

text \<open>
  A volume whose range exceeds the largest double: the subtraction of the minimum from the
  maximum overflows to infinity, the voxels below the maximum are scaled to 0 and the
  maximum itself to NaN.
\<close>

lemma overflow_scaled:
  assumes "M = 2 ^ 1023"
  shows "vol_scaled \<lparr>shape = [1, 1, 3], data = [- M, 0, M]\<rparr>
     = Inr \<lparr>shape = [1, 1, 3], data = [Finite 0, Finite 0, NaN]\<rparr>"
proof -
  have M: "0 < M" using assms by simp
  have mn: "np_min \<lparr>shape = [1, 1, 3], data = [- M, 0, M]\<rparr> = Inr (- M)"
    and mx: "np_max \<lparr>shape = [1, 1, 3], data = [- M, 0, M]\<rparr> = Inr M"
    using M by (simp_all add: np_min_def np_max_def min_def max_def)
  have "2 * M = 2 powi 1024" using assms by simp
  then have "round53 (2 * M) = 2 * M" using round53_pow2 [of 1024] by simp
  moreover have "(1::real) / 2 ^ 1022 \<le> \<bar>2 * M\<bar>" using assms by simp
  ultimately have "round64 (2 * M) = 2 * M" by (simp only: round64_normal)
  moreover have "\<not> \<bar>2 * M\<bar> < 2 ^ 1024" using assms by simp
  ultimately have top: "ieee (2 * M) = PosInf" using M by (simp add: ieee_def)
  have "round64 M = M" using round64_2_1023 assms by simp
  moreover have "\<bar>M\<bar> < 2 ^ 1024" using assms by simp
  ultimately have mid: "ieee M = Finite M" by (simp add: ieee_def)
  show ?thesis
    unfolding vol_scaled_eq [OF mn mx] by (simp add: top mid ieee_zero)
qed

subsection \<open>The claims about the overlay\<close>

text \<open>
  Claim C7, as amended. Take an intensity volume and a label volume of one shape, and let
  the range of the volume, its maximum minus its minimum as the doubles compute it, be a
  positive number \<open>d\<close> (not zero, not infinite). At every voxel whose label is not zero the
  three channels of the result are the blend of the label's colour with the grey value of
  the voxel: blue \<open>[0, 0, 255]\<close> for the labels 1 and 2, red \<open>[255, 0, 0]\<close> for the label 3,
  and \<open>[0, 0, 0]\<close> for every other label. The blend of a colour value \<open>c\<close> with a grey
  value \<open>g\<close> is \<^verbatim>\<open>np.round(0.3*c + 0.7*g)\<close> as the doubles compute it, which is an integer
  nearest to the exact \<open>0.3 c + 0.7 g\<close>. The grey value is the volume minus its minimum,
  over \<open>d\<close>, times 255, each operation rounded to a double, then rounded to an integer
  from 0 to 255: 0 at the minimum and 255 at the maximum. Labels of a label volume are
  not negative.
\<close>

theorem overlay_labelled_voxel:
  assumes "wf_array vol" "wf_array seg" "length (shape seg) = 3" "shape vol = shape seg"
    and "j < length (data seg)" and "0 \<le> data seg ! j"
    and "np_min vol = Inr mn" "np_max vol = Inr mx" "ieee (mx - mn) = Finite d" "0 < d"
  shows "\<exists>out grey.
     overlay_segmentation u vol seg = Inr out \<and> vol_greyscale u vol = Inr grey \<and>
     int (unat (data grey ! j)) =
       rint (round64 (round64 (round64 (data vol ! j - mn) / d) * 255)) \<and>
     (data vol ! j = mn \<longrightarrow> data grey ! j = 0) \<and>
     (data vol ! j = mx \<longrightarrow> data grey ! j = 255) \<and>
     (data seg ! j \<noteq> 0 \<longrightarrow>
        voxel out j = map (\<lambda>c. blend u c (data grey ! j))
          (if data seg ! j = 1 \<or> data seg ! j = 2 then [0, 0, 255]
           else if data seg ! j = 3 then [255, 0, 0] else [0, 0, 0])) \<and>
     (\<forall>c \<in> {0, 255}.
        int (unat (blend u c (data grey ! j))) =
          rint (round53 (round53 (round53 (3 / 10) * of_int c) +
                         round53 (round53 (1 - round53 (3 / 10)) * of_nat (unat (data grey ! j))))) \<and>
        \<bar>real (unat (blend u c (data grey ! j)))
           - (3 * real_of_int c + 7 * real (unat (data grey ! j))) / 10\<bar> \<le> 1 / 2)"
proof -
  have n: "length (data vol) = length (data seg)" using assms by (simp add: wf_array_def)
  then have jv: "j < length (data vol)" using assms(5) by simp
  then have ne: "data vol \<noteq> []" by auto
  note m = assms(7,8)
  obtain grey where g: "vol_greyscale u vol = Inr grey"
    using vol_greyscale_defined [OF ne] by blast
  obtain out where o: "overlay_segmentation u vol seg = Inr out"
    and vx: "voxel out j =
         (if 0 < data seg ! j
          then map (\<lambda>c. blend u c (data grey ! j)) (label_colour (data seg ! j))
          else [data grey ! j, data grey ! j, data grey ! j])"
    using overlay_voxel [OF assms(1-4) g] assms(5) by blast
  have a: "data seg ! j \<noteq> 0 \<longrightarrow>
        voxel out j = map (\<lambda>c. blend u c (data grey ! j))
          (if data seg ! j = 1 \<or> data seg ! j = 2 then [0, 0, 255]
           else if data seg ! j = 3 then [255, 0, 0] else [0, 0, 0])"
    using vx assms(6) by (simp add: label_colour_def)
  have b: "int (unat (blend u c (data grey ! j))) =
          rint (round53 (round53 (round53 (3 / 10) * of_int c) +
                         round53 (round53 (1 - round53 (3 / 10)) * of_nat (unat (data grey ! j))))) \<and>
        \<bar>real (unat (blend u c (data grey ! j)))
           - (3 * real_of_int c + 7 * real (unat (data grey ! j))) / 10\<bar> \<le> 1 / 2"
    if "c \<in> {0, 255}" for c :: int
  proof -
    have c: "c = 0 \<or> c = 255" "0 \<le> c" "c \<le> 255" using that by auto
    have "int (unat (blend u c (data grey ! j))) =
          rint (round53 (round53 (round53 (3 / 10) * of_int c) +
                         round53 (round53 (1 - round53 (3 / 10)) * of_nat (unat (data grey ! j)))))"
      using blend_eq [OF c(2,3), of u "data grey ! j"] by (simp only: alpha_def)
    moreover have "\<bar>real (unat (blend u c (data grey ! j)))
           - (3 * real_of_int c + 7 * real (unat (data grey ! j))) / 10\<bar> \<le> 1 / 2"
      using blend_near [OF c(1), of u "data grey ! j"] by (simp del: of_nat_unat)
    ultimately show ?thesis by (rule conjI)
  qed
  have d: "int (unat (data grey ! j)) =
       rint (round64 (round64 (round64 (data vol ! j - mn) / d) * 255))"
    using grey_value [OF m g jv assms(9,10)] .
  have dd: "d = round64 (mx - mn)"
    using assms(9) by (simp add: ieee_def split: if_splits)
  have lo: "data grey ! j = 0" if "data vol ! j = mn"
  proof -
    have "int (unat (data grey ! j)) = 0"
      unfolding d using that by (simp add: round64_zero rint_def)
    then show ?thesis by (simp add: word_uint_eq_iff)
  qed
  have hi: "data grey ! j = 255" if "data vol ! j = mx"
  proof -
    have "round64 (data vol ! j - mn) / d = 1" using that dd assms(10) by simp
    then have "int (unat (data grey ! j)) = rint (of_int 255)"
      unfolding d by (simp add: round64_one round64_255)
    then have "int (unat (data grey ! j)) = 255" by (simp only: rint_of_int)
    then show ?thesis by (simp add: word_uint_eq_iff)
  qed
  show ?thesis using o g d lo hi a b by blast
qed

theorem overlay_labelled_voxel_witness:
  "\<exists>out. overlay_segmentation (\<lambda>_. 0) \<lparr>shape = [1, 1, 4], data = [0, 10, 3, 5]\<rparr>
            \<lparr>shape = [1, 1, 4], data = [0, 1, 3, 4]\<rparr> = Inr out \<and>
         voxel out 1 = [178, 178, 255]"
proof -
  have "vol_greyscale (\<lambda>_. 0) \<lparr>shape = [1, 1, 4], data = [0, 10, 3, 5]\<rparr>
      = Inr \<lparr>shape = [1, 1, 4], data = [0, 255, 76, 128]\<rparr>"
    by (simp add: vol_greyscale_def vol_scaled_def np_min_def np_max_def)
      (simp add: ieee_def round64_def astype_uint8_def round53_def binade.simps rint_def Let_def)
  moreover have "blend (\<lambda>_. 0) 0 255 = 178 \<and> blend (\<lambda>_. 0) 255 255 = 255"
    by (simp add: blend_def alpha_def astype_uint8_def round53_def binade.simps rint_def Let_def)
  moreover have "np_min \<lparr>shape = [1, 1, 4], data = [0, 10, 3, 5]\<rparr> = Inr 0"
    "np_max \<lparr>shape = [1, 1, 4], data = [0, 10, 3, 5]\<rparr> = Inr 10"
    by (simp_all add: np_min_def np_max_def)
  moreover have "ieee (10 - 0) = Finite 10"
    by (simp add: ieee_def round64_def round53_def binade.simps rint_def Let_def)
  ultimately show ?thesis
    using overlay_labelled_voxel [of "\<lparr>shape = [1, 1, 4], data = [0, 10, 3, 5]\<rparr>"
        "\<lparr>shape = [1, 1, 4], data = [0, 1, 3, 4]\<rparr>" 1 0 10 10 "\<lambda>_. 0"]
    by (auto simp: wf_array_def)
qed

text \<open>
  Claim C7 as stated fails without the condition on the range. For a constant volume the
  scaled values are NaN, and the channels of a labelled voxel are the blend of its colour
  with whatever the conversion of NaN to \<^verbatim>\<open>uint8\<close> stores. For the volume
  \<open>[- 2 ^ 1023, 0, 2 ^ 1023]\<close> the range overflows: the voxel in the middle of the range
  gets the grey value 0, not 128, and the maximum is scaled to NaN.
\<close>

theorem overlay_normalisation_counterexample:
  "vol_scaled \<lparr>shape = [1, 1, 1], data = [5]\<rparr> = Inr \<lparr>shape = [1, 1, 1], data = [NaN]\<rparr> \<and>
   (\<forall>u. \<exists>out. overlay_segmentation u \<lparr>shape = [1, 1, 1], data = [5]\<rparr>
                   \<lparr>shape = [1, 1, 1], data = [1]\<rparr> = Inr out \<and>
               voxel out 0 = [blend u 0 (u NaN), blend u 0 (u NaN), blend u 255 (u NaN)]) \<and>
   vol_scaled \<lparr>shape = [1, 1, 3], data = [- (2 ^ 1023), 0, 2 ^ 1023]\<rparr>
     = Inr \<lparr>shape = [1, 1, 3], data = [Finite 0, Finite 0, NaN]\<rparr> \<and>
   (\<forall>u. vol_greyscale u \<lparr>shape = [1, 1, 3], data = [- (2 ^ 1023), 0, 2 ^ 1023]\<rparr>
     = Inr \<lparr>shape = [1, 1, 3], data = [0, 0, u NaN]\<rparr>)"
proof -
  have s: "vol_scaled \<lparr>shape = [1, 1, 1], data = [5]\<rparr> = Inr \<lparr>shape = [1, 1, 1], data = [NaN]\<rparr>"
    by (simp add: vol_scaled_def np_min_def np_max_def ieee_zero)
  have g: "vol_greyscale u \<lparr>shape = [1, 1, 1], data = [5]\<rparr>
      = Inr \<lparr>shape = [1, 1, 1], data = [u NaN]\<rparr>" for u
    unfolding vol_greyscale_def s by (simp add: astype_uint8_def)
  have o: "\<exists>out. overlay_segmentation u \<lparr>shape = [1, 1, 1], data = [5]\<rparr>
                   \<lparr>shape = [1, 1, 1], data = [1]\<rparr> = Inr out \<and>
               voxel out 0 = [blend u 0 (u NaN), blend u 0 (u NaN), blend u 255 (u NaN)]" for u
    using overlay_voxel [OF _ _ _ _ g, of "\<lparr>shape = [1, 1, 1], data = [1]\<rparr>" u]
    by (auto simp: wf_array_def label_colour_def)
  have s2: "vol_scaled \<lparr>shape = [1, 1, 3], data = [- (2 ^ 1023), 0, 2 ^ 1023]\<rparr>
     = Inr \<lparr>shape = [1, 1, 3], data = [Finite 0, Finite 0, NaN]\<rparr>"
    by (rule overflow_scaled) (rule refl)
  have g2: "vol_greyscale u \<lparr>shape = [1, 1, 3], data = [- (2 ^ 1023), 0, 2 ^ 1023]\<rparr>
     = Inr \<lparr>shape = [1, 1, 3], data = [0, 0, u NaN]\<rparr>" for u
    unfolding vol_greyscale_def s2 by (simp add: ieee_zero astype_uint8_def rint_def)
  show ?thesis using s o s2 g2 by blast
qed

text \<open>
  Claim C8, as amended. For an intensity volume with at least one voxel and a label
  volume of the same shape, the result has the shape of the volume with a further last
  axis of size 3, it is a well-formed array, and at every voxel whose label is 0 the three
  channels are the grey value of that voxel.
\<close>

theorem overlay_shape_and_background:
  assumes "wf_array vol" "wf_array seg" "length (shape seg) = 3" "shape vol = shape seg"
    and "data vol \<noteq> []"
  shows "\<exists>out grey.
     overlay_segmentation u vol seg = Inr out \<and> vol_greyscale u vol = Inr grey \<and>
     shape out = shape vol @ [3] \<and> wf_array out \<and>
     (\<forall>j < length (data seg). data seg ! j = 0 \<longrightarrow>
        voxel out j = [data grey ! j, data grey ! j, data grey ! j])"
proof -
  obtain grey where g: "vol_greyscale u vol = Inr grey"
    using vol_greyscale_defined [OF assms(5)] by blast
  obtain out where o: "overlay_segmentation u vol seg = Inr out" "shape out = shape seg @ [3]"
    "length (data out) = 3 * length (data seg)"
    and vx: "\<And>j. j < length (data seg) \<Longrightarrow> voxel out j =
         (if 0 < data seg ! j
          then map (\<lambda>c. blend u c (data grey ! j)) (label_colour (data seg ! j))
          else [data grey ! j, data grey ! j, data grey ! j])"
    using overlay_voxel [OF assms(1-4) g] by blast
  have "wf_array out" using o assms(2) by (simp add: wf_array_def)
  then show ?thesis using o g vx assms(4) by auto
qed

theorem overlay_shape_and_background_witness:
  "\<exists>out. overlay_segmentation (\<lambda>_. 0) \<lparr>shape = [1, 1, 3], data = [2, 0, 4]\<rparr>
            \<lparr>shape = [1, 1, 3], data = [0, 0, 2]\<rparr> = Inr out \<and>
         shape out = [1, 1, 3, 3] \<and> voxel out 0 = [128, 128, 128]"
proof -
  have "vol_greyscale (\<lambda>_. 0) \<lparr>shape = [1, 1, 3], data = [2, 0, 4]\<rparr>
      = Inr \<lparr>shape = [1, 1, 3], data = [128, 0, 255]\<rparr>"
    by (simp add: vol_greyscale_def vol_scaled_def np_min_def np_max_def)
      (simp add: ieee_def round64_def astype_uint8_def round53_def binade.simps rint_def Let_def)
  then show ?thesis
    using overlay_shape_and_background [of "\<lparr>shape = [1, 1, 3], data = [2, 0, 4]\<rparr>"
        "\<lparr>shape = [1, 1, 3], data = [0, 0, 2]\<rparr>" "\<lambda>_. 0"]
    by (auto simp: wf_array_def)
qed

text \<open>
  Claim C8 as stated fails for a volume without voxels: \<^verbatim>\<open>np.min\<close> raises
  \<^verbatim>\<open>ValueError\<close> and there is no result.
\<close>

theorem overlay_empty_volume_counterexample:
  "\<forall>u. wf_array \<lparr>shape = [0, 1, 1], data = [] :: real list\<rparr> \<and>
       wf_array \<lparr>shape = [0, 1, 1], data = [] :: int list\<rparr> \<and>
       overlay_segmentation u \<lparr>shape = [0, 1, 1], data = []\<rparr> \<lparr>shape = [0, 1, 1], data = []\<rparr>
         = Inl ValueError"
  by (simp add: wf_array_def overlay_segmentation_def vol_greyscale_def vol_scaled_def np_min_def)

text \<open>
  Claim C9. For an intensity volume with at least one voxel the minimum and the maximum
  exist, and when they are equal every scaled value is NaN (the division is \<open>0 / 0\<close>), not
  a real number. Nothing guards that case: the function still returns, every grey value
  is whatever the conversion of NaN to \<^verbatim>\<open>uint8\<close> stores, and so are the channels of the
  voxels that are not labelled.
\<close>

theorem overlay_constant_volume:
  assumes "wf_array vol" "wf_array seg" "length (shape seg) = 3" "shape vol = shape seg"
    and "data vol \<noteq> []"
  shows "\<exists>mn mx sc grey out.
     np_min vol = Inr mn \<and> np_max vol = Inr mx \<and> mn \<le> mx \<and>
     vol_scaled vol = Inr sc \<and> vol_greyscale u vol = Inr grey \<and>
     overlay_segmentation u vol seg = Inr out \<and>
     (mn = mx \<longrightarrow>
        (\<forall>x \<in> set (data sc). x = NaN) \<and> (\<forall>g \<in> set (data grey). g = u NaN) \<and>
        (\<forall>j < length (data seg). data seg ! j \<le> 0 \<longrightarrow> voxel out j = [u NaN, u NaN, u NaN]))"
proof -
  obtain mn mx where m: "np_min vol = Inr mn" "np_max vol = Inr mx"
    using np_min_Min [OF assms(5)] np_max_Max [OF assms(5)] by blast
  have b: "mn \<le> v \<and> v \<le> mx" if "v \<in> set (data vol)" for v
    using np_min_max_bounds [OF m that] .
  have le: "mn \<le> mx" using b [OF np_min_in [OF m(1)]] by simp
  define sc where "sc = \<lparr>shape = shape vol,
    data = map (\<lambda>v. np_divide (ieee (v - mn)) (ieee (mx - mn))) (data vol)\<rparr>"
  define grey where "grey = \<lparr>shape = shape vol,
    data = map (\<lambda>v. astype_uint8 u (np_around (times_255
                   (np_divide (ieee (v - mn)) (ieee (mx - mn)))))) (data vol)\<rparr>"
  have s: "vol_scaled vol = Inr sc" unfolding sc_def by (rule vol_scaled_eq [OF m])
  have g: "vol_greyscale u vol = Inr grey" unfolding grey_def by (rule vol_greyscale_eq [OF m])
  obtain out where o: "overlay_segmentation u vol seg = Inr out"
    and lg: "length (data grey) = length (data seg)"
    and vx: "\<And>j. j < length (data seg) \<Longrightarrow> voxel out j =
         (if 0 < data seg ! j
          then map (\<lambda>c. blend u c (data grey ! j)) (label_colour (data seg ! j))
          else [data grey ! j, data grey ! j, data grey ! j])"
    using overlay_voxel [OF assms(1-4) g] by blast
  have c: "(\<forall>x \<in> set (data sc). x = NaN) \<and> (\<forall>g \<in> set (data grey). g = u NaN) \<and>
        (\<forall>j < length (data seg). data seg ! j \<le> 0 \<longrightarrow> voxel out j = [u NaN, u NaN, u NaN])"
    if "mn = mx"
  proof -
    have "np_divide (ieee (v - mn)) (ieee (mx - mn)) = NaN" if "v \<in> set (data vol)" for v
      using scaled_constant [OF \<open>mn = mx\<close>, of v] b [OF that] by simp
    then have 1: "\<forall>x \<in> set (data sc). x = NaN" and 2: "\<forall>g \<in> set (data grey). g = u NaN"
      by (auto simp: sc_def grey_def astype_uint8_def)
    have "data grey ! j = u NaN" if "j < length (data seg)" for j
      using 2 that lg nth_mem [of j "data grey"] by simp
    then have "\<forall>j < length (data seg). data seg ! j \<le> 0 \<longrightarrow> voxel out j = [u NaN, u NaN, u NaN]"
      using vx by simp
    then show ?thesis using 1 2 by simp
  qed
  show ?thesis using m le s g o c by blast
qed

theorem overlay_constant_volume_witness:
  "\<exists>out. vol_scaled \<lparr>shape = [1, 1, 2], data = [5, 5]\<rparr>
           = Inr \<lparr>shape = [1, 1, 2], data = [NaN, NaN]\<rparr> \<and>
         vol_greyscale (\<lambda>_. 7) \<lparr>shape = [1, 1, 2], data = [5, 5]\<rparr>
           = Inr \<lparr>shape = [1, 1, 2], data = [7, 7]\<rparr> \<and>
         overlay_segmentation (\<lambda>_. 7) \<lparr>shape = [1, 1, 2], data = [5, 5]\<rparr>
            \<lparr>shape = [1, 1, 2], data = [0, 1]\<rparr> = Inr out \<and>
         voxel out 0 = [7, 7, 7]"
proof -
  have "vol_scaled \<lparr>shape = [1, 1, 2], data = [5, 5]\<rparr>
           = Inr \<lparr>shape = [1, 1, 2], data = [NaN, NaN]\<rparr>"
    by (simp add: vol_scaled_def np_min_def np_max_def ieee_zero)
  moreover have "vol_greyscale (\<lambda>_. 7) \<lparr>shape = [1, 1, 2], data = [5, 5]\<rparr>
           = Inr \<lparr>shape = [1, 1, 2], data = [7, 7]\<rparr>"
    by (simp add: vol_greyscale_def vol_scaled_def np_min_def np_max_def ieee_zero
        astype_uint8_def)
  ultimately show ?thesis
    using overlay_constant_volume [of "\<lparr>shape = [1, 1, 2], data = [5, 5]\<rparr>"
        "\<lparr>shape = [1, 1, 2], data = [0, 1]\<rparr>" "\<lambda>_. 7"]
    by (auto simp: wf_array_def np_min_def np_max_def)
qed

text \<open>
  Claim C10, as amended. A voxel whose label is not 0, 1, 2 or 3 (labels are not
  negative) counts as labelled and keeps the colour \<open>[0, 0, 0]\<close>: each of its channels is
  \<^verbatim>\<open>np.round(0.7*g)\<close> for its grey value \<open>g\<close>, as the doubles compute it. That is an
  integer nearest to the exact \<open>0.7 g\<close>; it is never above \<open>g\<close>, it is below \<open>g\<close> from
  \<open>g = 2\<close> on, and it is \<open>g\<close> itself for \<open>g = 0\<close> and \<open>g = 1\<close>.
\<close>

theorem overlay_unmapped_label:
  assumes "wf_array vol" "wf_array seg" "length (shape seg) = 3" "shape vol = shape seg"
    and "j < length (data seg)" and "0 \<le> data seg ! j" and "data seg ! j \<notin> {0, 1, 2, 3}"
  shows "\<exists>out grey d.
     overlay_segmentation u vol seg = Inr out \<and> vol_greyscale u vol = Inr grey \<and>
     voxel out j = [d, d, d] \<and>
     int (unat d) = rint (round53 (round53 (1 - round53 (3 / 10)) * of_nat (unat (data grey ! j)))) \<and>
     \<bar>real (unat d) - 7 * real (unat (data grey ! j)) / 10\<bar> \<le> 1 / 2 \<and>
     unat d \<le> unat (data grey ! j) \<and>
     (2 \<le> unat (data grey ! j) \<longrightarrow> unat d < unat (data grey ! j)) \<and>
     (unat (data grey ! j) \<le> 1 \<longrightarrow> d = data grey ! j)"
proof -
  have n: "length (data vol) = length (data seg)" using assms by (simp add: wf_array_def)
  then have ne: "data vol \<noteq> []" using assms(5) by auto
  obtain grey where g: "vol_greyscale u vol = Inr grey"
    using vol_greyscale_defined [OF ne] by blast
  obtain out where o: "overlay_segmentation u vol seg = Inr out"
    and vx: "voxel out j =
         (if 0 < data seg ! j
          then map (\<lambda>c. blend u c (data grey ! j)) (label_colour (data seg ! j))
          else [data grey ! j, data grey ! j, data grey ! j])"
    using overlay_voxel [OF assms(1-4) g] assms(5) by blast
  define d where "d = blend u 0 (data grey ! j)"
  have v: "voxel out j = [d, d, d]"
    using vx assms(6,7) by (simp add: label_colour_def d_def)
  have e: "int (unat d) = rint (round53 (round53 (1 - round53 (3 / 10)) * of_nat (unat (data grey ! j))))"
    unfolding d_def using blend_zero_colour [of u "data grey ! j"] by (simp only: alpha_def)
  have a: "\<bar>real (unat d) - 7 * real (unat (data grey ! j)) / 10\<bar> \<le> 1 / 2"
    unfolding d_def using blend_near [of 0 u "data grey ! j"] by (simp del: of_nat_unat)
  have l: "unat d \<le> unat (data grey ! j)"
    "2 \<le> unat (data grey ! j) \<longrightarrow> unat d < unat (data grey ! j)"
    unfolding d_def using blend_zero_darker [where u = u and g = "data grey ! j"] by simp_all
  have k: "unat (data grey ! j) \<le> 1 \<longrightarrow> d = data grey ! j"
    unfolding d_def using blend_zero_low [of "data grey ! j" u] by simp
  show ?thesis using o g v e a l k by blast
qed

theorem overlay_unmapped_label_witness:
  "\<exists>out. overlay_segmentation (\<lambda>_. 0) \<lparr>shape = [1, 1, 4], data = [0, 10, 3, 5]\<rparr>
            \<lparr>shape = [1, 1, 4], data = [0, 1, 3, 4]\<rparr> = Inr out \<and>
         voxel out 3 = [90, 90, 90]"
proof -
  have g: "vol_greyscale (\<lambda>_. 0) \<lparr>shape = [1, 1, 4], data = [0, 10, 3, 5]\<rparr>
      = Inr \<lparr>shape = [1, 1, 4], data = [0, 255, 76, 128]\<rparr>"
    by (simp add: vol_greyscale_def vol_scaled_def np_min_def np_max_def)
      (simp add: ieee_def round64_def astype_uint8_def round53_def binade.simps rint_def Let_def)
  have r: "rint (round53 (round53 (1 - round53 (3 / 10)) * 128)) = 90"
    by (simp add: round53_def binade.simps rint_def Let_def)
  obtain out grey d where
    "overlay_segmentation (\<lambda>_. 0) \<lparr>shape = [1, 1, 4], data = [0, 10, 3, 5]\<rparr>
            \<lparr>shape = [1, 1, 4], data = [0, 1, 3, 4]\<rparr> = Inr out"
    "vol_greyscale (\<lambda>_. 0) \<lparr>shape = [1, 1, 4], data = [0, 10, 3, 5]\<rparr> = Inr grey"
    "voxel out 3 = [d, d, d]"
    "int (unat d) = rint (round53 (round53 (1 - round53 (3 / 10)) * of_nat (unat (data grey ! 3))))"
    using overlay_unmapped_label [of "\<lparr>shape = [1, 1, 4], data = [0, 10, 3, 5]\<rparr>"
        "\<lparr>shape = [1, 1, 4], data = [0, 1, 3, 4]\<rparr>" 3 "\<lambda>_. 0"]
    by (auto simp: wf_array_def)
  moreover have "d = 90" if "int (unat d) = 90" for d :: "8 word"
    using that by (simp add: word_uint_eq_iff)
  ultimately show ?thesis using g r by auto
qed

text \<open>
  Claim C10 as stated fails at a voxel whose grey value is 0: with the label 4 at the
  minimum of the volume the three channels are 0, which is the grey value of the voxel,
  so the voxel is not darkened.
\<close>

theorem overlay_unmapped_label_counterexample:
  "\<forall>u. \<exists>out grey.
     overlay_segmentation u \<lparr>shape = [1, 1, 2], data = [0, 10]\<rparr>
        \<lparr>shape = [1, 1, 2], data = [4, 0]\<rparr> = Inr out \<and>
     vol_greyscale u \<lparr>shape = [1, 1, 2], data = [0, 10]\<rparr> = Inr grey \<and>
     data grey ! 0 = 0 \<and> voxel out 0 = [0, 0, 0]"
proof
  fix u :: "np_float \<Rightarrow> 8 word"
  have g: "vol_greyscale u \<lparr>shape = [1, 1, 2], data = [0, 10]\<rparr>
      = Inr \<lparr>shape = [1, 1, 2], data = [0, 255]\<rparr>"
    by (simp add: vol_greyscale_def vol_scaled_def np_min_def np_max_def)
      (simp add: ieee_def round64_def astype_uint8_def round53_def binade.simps rint_def Let_def)
  have b: "blend u 0 0 = 0" by (rule blend_zero_low) simp
  show "\<exists>out grey.
     overlay_segmentation u \<lparr>shape = [1, 1, 2], data = [0, 10]\<rparr>
        \<lparr>shape = [1, 1, 2], data = [4, 0]\<rparr> = Inr out \<and>
     vol_greyscale u \<lparr>shape = [1, 1, 2], data = [0, 10]\<rparr> = Inr grey \<and>
     data grey ! 0 = 0 \<and> voxel out 0 = [0, 0, 0]"
    using overlay_voxel [OF _ _ _ _ g, of "\<lparr>shape = [1, 1, 2], data = [4, 0]\<rparr>"] g b
    by (auto simp: wf_array_def label_colour_def)
qed

end
